theory Spec2Isabelle
  imports Complex_Main "HOL-Library.Multiset"
begin

section \<open>Data model (types.ts, constants.tsx)\<close>

text \<open>
  The board is an array of rows; squares are pairs of numbers, modelled as integers (the
  validator compares them with 0 and subtracts them). The optional \<open>pawnDirection\<close>
  field of a piece is never read or written and is left out.

  A row is a JavaScript array. The code assigns to \<open>board[r][c]\<close> without looking
  at \<open>c\<close>, and such an assignment never fails: at an index past the end it grows the
  array, leaving holes in between, and at a key that is not an array index (a negative
  number, or one from \<open>2^32 - 1\<close> on) it attaches a property to the array object.
  So a row is its list of elements, each a hole or a value, together with the properties
  it holds under other keys, in the order they were attached. The values \<open>null\<close> and
  \<open>undefined\<close> are both \<open>None\<close>: the code only ever tests a square for truthiness.
  The memory an array of great length would take is not modelled.
\<close>

datatype Color = White | Black

datatype PieceType = PAWN | ROOK | KNIGHT | BISHOP

datatype GameMode = AI | Local | Online

datatype Difficulty = Easy | Medium | Hard

datatype MoveType = Place | Relocate

datatype Winner = Won Color | Draw

record Piece =
  ptype :: PieceType
  color :: Color
  pid :: string

record Position =
  row :: int
  col :: int

record 'a PerColor =
  white :: 'a
  black :: 'a

record Move =
  mtype :: MoveType
  pieceType :: PieceType
  mfrom :: "Position option"
  mto :: Position
  captured :: "Piece option"
  pieceId :: "string option"
  logicFeedback :: "string option"

datatype Slot = Hole | Val "Piece option"

record Row =
  elems :: "Slot list"
  named :: "(int \<times> Piece option) list"

type_synonym Board = "Row list"

record GameState =
  board :: Board
  hands :: "PieceType list PerColor"
  pawnDirections :: "int PerColor"
  currentPlayer :: Color
  winner :: "Winner option"
  winningLine :: "Position list option"
  history :: "Move list"
  statusMessage :: string
  gameMode :: GameMode
  difficulty :: Difficulty
  positionCounts :: "string \<rightharpoonup> nat"

datatype error = TypeError

definition GRID_SIZE :: nat where
  "GRID_SIZE = 4"

definition INITIAL_HAND :: "PieceType list" where
  "INITIAL_HAND = [PAWN, ROOK, KNIGHT, BISHOP]"

definition other :: "Color \<Rightarrow> Color" where
  "other p = (if p = White then Black else White)"

definition get :: "'a PerColor \<Rightarrow> Color \<Rightarrow> 'a" where
  "get h p = (case p of White \<Rightarrow> white h | Black \<Rightarrow> black h)"

definition put :: "'a PerColor \<Rightarrow> Color \<Rightarrow> 'a \<Rightarrow> 'a PerColor" where
  "put h p v = (case p of White \<Rightarrow> h\<lparr>white := v\<rparr> | Black \<Rightarrow> h\<lparr>black := v\<rparr>)"

definition colorStr :: "Color \<Rightarrow> string" where
  "colorStr p = (case p of White \<Rightarrow> ''white'' | Black \<Rightarrow> ''black'')"

definition typeChar :: "PieceType \<Rightarrow> char" where
  "typeChar t = (case t of PAWN \<Rightarrow> CHR ''P'' | ROOK \<Rightarrow> CHR ''R''
                   | KNIGHT \<Rightarrow> CHR ''N'' | BISHOP \<Rightarrow> CHR ''B'')"

definition difficultyStr :: "Difficulty \<Rightarrow> string" where
  "difficultyStr d = (case d of Easy \<Rightarrow> ''easy'' | Medium \<Rightarrow> ''medium'' | Hard \<Rightarrow> ''hard'')"

subsection \<open>Numbers as decimal strings\<close>

fun digits :: "nat \<Rightarrow> string" where
  "digits n = (if n < 10 then [char_of (48 + n)]
               else digits (n div 10) @ [char_of (48 + n mod 10)])"

declare digits.simps [simp del]

definition numberToString :: "int \<Rightarrow> string" where
  "numberToString i = (if i < 0 then CHR ''-'' # digits (nat (- i)) else digits (nat i))"

subsection \<open>Arrays\<close>

text \<open>
  \<open>look\<close> is the read \<open>row[c]\<close>, \<open>store\<close> the assignment \<open>row[c] = v\<close>,
  \<open>copyRow\<close> the spread \<open>[...row]\<close> (it reads the indices below the length, so a
  hole becomes \<open>undefined\<close> and the other properties are not taken along), \<open>live\<close>
  the elements \<open>flat()\<close> takes from a row (it skips holes), and \<open>arrayOf\<close> an array
  with the given elements and nothing else, as \<open>Array(n).fill(v)\<close> or an array
  literal makes it.
\<close>

definition isIndex :: "int \<Rightarrow> bool" where
  "isIndex c \<longleftrightarrow> 0 \<le> c \<and> c < 4294967295"

definition slotValue :: "Slot \<Rightarrow> Piece option" where
  "slotValue x = (case x of Hole \<Rightarrow> None | Val v \<Rightarrow> v)"

definition look :: "Row \<Rightarrow> int \<Rightarrow> Piece option" where
  "look r c =
     (if isIndex c
      then (if nat c < length (elems r) then slotValue (elems r ! nat c) else None)
      else (case map_of (named r) c of None \<Rightarrow> None | Some v \<Rightarrow> v))"

fun setNamed :: "int \<Rightarrow> Piece option \<Rightarrow> (int \<times> Piece option) list
    \<Rightarrow> (int \<times> Piece option) list" where
  "setNamed k v [] = [(k, v)]"
| "setNamed k v (p # ps) = (if fst p = k then (k, v) # ps else p # setNamed k v ps)"

definition store :: "Row \<Rightarrow> int \<Rightarrow> Piece option \<Rightarrow> Row" where
  "store r c v =
     (if isIndex c
      then (if nat c < length (elems r)
            then r\<lparr>elems := (elems r)[nat c := Val v]\<rparr>
            else r\<lparr>elems := elems r @ replicate (nat c - length (elems r)) Hole @ [Val v]\<rparr>)
      else r\<lparr>named := setNamed c v (named r)\<rparr>)"

definition copyRow :: "Row \<Rightarrow> Row" where
  "copyRow r = \<lparr>elems = map (\<lambda>x. Val (slotValue x)) (elems r), named = []\<rparr>"

definition copyBoard :: "Board \<Rightarrow> Board" where
  "copyBoard b = map copyRow b"

definition live :: "Row \<Rightarrow> Piece option list" where
  "live r = concat (map (\<lambda>x. case x of Hole \<Rightarrow> [] | Val v \<Rightarrow> [v]) (elems r))"

definition flat :: "Board \<Rightarrow> Piece option list" where
  "flat b = concat (map live b)"

definition arrayOf :: "Piece option list \<Rightarrow> Row" where
  "arrayOf xs = \<lparr>elems = map Val xs, named = []\<rparr>"

subsection \<open>Reading and writing squares\<close>

text \<open>
  \<open>cell\<close> is the read \<open>board[r][c]\<close> of the loops that run over the grid, where
  both indices are below \<open>GRID_SIZE\<close> and the board has its \<open>GRID_SIZE\<close> rows (no
  assignment adds or removes a row). \<open>readAt\<close> is the same read at a square that
  comes from a move, and \<open>writeAt\<close> the assignment \<open>board[r][c] = v\<close>: a row index
  outside the board makes \<open>board[r]\<close> undefined and the access raises a TypeError;
  whatever the column, the read and the assignment go through as \<open>look\<close> and
  \<open>store\<close> say.

  \<open>createEmptyBoard\<close> makes \<open>GRID_SIZE\<close> rows of \<open>GRID_SIZE\<close> squares, and a move
  whose squares are on the grid keeps that shape; \<open>wf_board\<close> is the shape: no holes,
  no further properties. The statements about the grid loops are made for such boards.
\<close>

definition wf_row :: "Row \<Rightarrow> bool" where
  "wf_row r \<longleftrightarrow> length (elems r) = GRID_SIZE \<and> list_all (\<lambda>x. x \<noteq> Hole) (elems r) \<and> named r = []"

definition wf_board :: "Board \<Rightarrow> bool" where
  "wf_board b \<longleftrightarrow> length b = GRID_SIZE \<and> list_all wf_row b"

definition cell :: "Board \<Rightarrow> nat \<Rightarrow> nat \<Rightarrow> Piece option" where
  "cell b i j = look (b ! i) (int j)"

definition rowOk :: "Board \<Rightarrow> Position \<Rightarrow> bool" where
  "rowOk b p \<longleftrightarrow> 0 \<le> row p \<and> row p < int (length b)"

definition readAt :: "Board \<Rightarrow> Position \<Rightarrow> error + Piece option" where
  "readAt b p =
     (if \<not> rowOk b p then Inl TypeError
      else Inr (look (b ! nat (row p)) (col p)))"

definition writeAt :: "Board \<Rightarrow> Position \<Rightarrow> Piece option \<Rightarrow> error + Board" where
  "writeAt b p v =
     (if \<not> rowOk b p then Inl TypeError
      else Inr (b[nat (row p) := store (b ! nat (row p)) (col p) v]))"

definition createEmptyBoard :: Board where
  "createEmptyBoard = replicate GRID_SIZE (arrayOf (replicate GRID_SIZE None))"

definition isPosEqual :: "Position \<Rightarrow> Position \<Rightarrow> bool" where
  "isPosEqual p1 p2 \<longleftrightarrow> row p1 = row p2 \<and> col p1 = col p2"

section \<open>Position hasher (gameLogic.ts, serializeState)\<close>

fun join :: "string \<Rightarrow> string list \<Rightarrow> string" where
  "join sep [] = []"
| "join sep [x] = x"
| "join sep (x # y # ys) = x @ sep @ join sep (y # ys)"

definition cellStr :: "Piece option \<Rightarrow> string" where
  "cellStr p = (case p of None \<Rightarrow> ''-'' | Some q \<Rightarrow> colorStr (color q) @ [typeChar (ptype q)])"

text \<open>
  \<open>sort()\<close> without a comparator orders the one-letter kind strings by code unit.
\<close>

definition sortHand :: "PieceType list \<Rightarrow> PieceType list" where
  "sortHand h = sort_key (\<lambda>t. (of_char (typeChar t) :: nat)) h"

definition handStr :: "PieceType list \<Rightarrow> string" where
  "handStr h = map typeChar (sortHand h)"

definition serializeState ::
  "Board \<Rightarrow> PieceType list PerColor \<Rightarrow> Color \<Rightarrow> int PerColor \<Rightarrow> string" where
  "serializeState b h p d =
     (let boardStr = join '','' (map cellStr (flat b));
          handW = handStr (white h);
          handB = handStr (black h);
          pawnDir = numberToString (white d) @ '','' @ numberToString (black d)
      in boardStr @ ''|'' @ handW @ ''|'' @ handB @ ''|'' @ colorStr p @ ''|'' @ pawnDir)"

section \<open>Terminal detector (gameLogic.ts, checkWin)\<close>

definition mkPos :: "nat \<Rightarrow> nat \<Rightarrow> Position" where
  "mkPos i j = \<lparr>row = int i, col = int j\<rparr>"

definition winLines :: "Position list list" where
  "winLines =
     map (\<lambda>i. map (\<lambda>j. mkPos i j) [0..<GRID_SIZE]) [0..<GRID_SIZE]
     @ map (\<lambda>j. map (\<lambda>i. mkPos i j) [0..<GRID_SIZE]) [0..<GRID_SIZE]
     @ [map (\<lambda>i. mkPos i i) [0..<GRID_SIZE],
        map (\<lambda>i. mkPos i (GRID_SIZE - 1 - i)) [0..<GRID_SIZE]]"

definition ownedBy :: "Board \<Rightarrow> Color \<Rightarrow> Position \<Rightarrow> bool" where
  "ownedBy b p pos =
     (case cell b (nat (row pos)) (nat (col pos)) of None \<Rightarrow> False | Some q \<Rightarrow> color q = p)"

definition checkWin :: "Board \<Rightarrow> Color \<Rightarrow> Position list option" where
  "checkWin b p = find (\<lambda>line. list_all (ownedBy b p) line) winLines"


section \<open>Move validator (gameLogic.ts, isValidMove)\<close>

record Validation =
  valid :: bool
  message :: "string option"

definition ok :: Validation where
  "ok = \<lparr>valid = True, message = None\<rparr>"

definition invalid :: "string \<Rightarrow> Validation" where
  "invalid msg = \<lparr>valid = False, message = Some msg\<rparr>"

text \<open>
  The Rook's and the Bishop's path checks are the same \<open>while\<close> loop. For arbitrary
  steps it need not end, so it is a partial function: \<open>None\<close> is the loop that never
  returns.
\<close>

partial_function (option) pathLoop ::
  "Board \<Rightarrow> int \<Rightarrow> int \<Rightarrow> Position \<Rightarrow> int \<Rightarrow> int \<Rightarrow> (error + Validation) option" where
  "pathLoop b rStep cStep to currR currC =
     (if currR \<noteq> row to \<or> currC \<noteq> col to then
        (case readAt b \<lparr>row = currR, col = currC\<rparr> of
           Inl e \<Rightarrow> Some (Inl e)
         | Inr None \<Rightarrow> pathLoop b rStep cStep to (currR + rStep) (currC + cStep)
         | Inr (Some q) \<Rightarrow> Some (Inr (invalid ''The path is blocked.'')))
      else Some (Inr ok))"

declare pathLoop.simps [code]

text \<open>
  The four branches of the \<open>switch\<close> on the piece type, one definition each.
\<close>

definition rookMove :: "Board \<Rightarrow> Position \<Rightarrow> Position \<Rightarrow> (error + Validation) option" where
  "rookMove b from to =
     (let dr = row to - row from;
          dc = col to - col from
      in if dr \<noteq> 0 \<and> dc \<noteq> 0 then Some (Inr (invalid ''Rooks move straight.''))
         else
           let rStep = (if dr = 0 then 0 else if dr > 0 then 1 else - 1);
               cStep = (if dc = 0 then 0 else if dc > 0 then 1 else - 1)
           in pathLoop b rStep cStep to (row from + rStep) (col from + cStep))"

definition bishopMove :: "Board \<Rightarrow> Position \<Rightarrow> Position \<Rightarrow> (error + Validation) option" where
  "bishopMove b from to =
     (let dr = row to - row from;
          dc = col to - col from
      in if \<bar>dr\<bar> \<noteq> \<bar>dc\<bar> then Some (Inr (invalid ''Bishops move diagonally.''))
         else
           let brStep = (if dr > 0 then 1 else - 1);
               bcStep = (if dc > 0 then 1 else - 1)
           in pathLoop b brStep bcStep to (row from + brStep) (col from + bcStep))"

definition knightMove :: "Position \<Rightarrow> Position \<Rightarrow> Validation" where
  "knightMove from to =
     (let absDr = \<bar>row to - row from\<bar>;
          absDc = \<bar>col to - col from\<bar>
      in if \<not> ((absDr = 2 \<and> absDc = 1) \<or> (absDr = 1 \<and> absDc = 2))
         then invalid ''Knights move in an L-shape.''
         else ok)"

definition pawnMove ::
  "int PerColor \<Rightarrow> Piece \<Rightarrow> Piece option \<Rightarrow> Position \<Rightarrow> Position \<Rightarrow> Validation" where
  "pawnMove dirs piece targetPiece from to =
     (let dr = row to - row from;
          dc = col to - col from;
          dir = (if color piece = White then white dirs else black dirs)
      in if dc = 0 \<and> dr = dir then
           (if targetPiece \<noteq> None
            then invalid ''Pawns can only move forward into empty squares.''
            else ok)
         else if \<bar>dc\<bar> = 1 \<and> dr = dir then
           (if (case targetPiece of None \<Rightarrow> True | Some t \<Rightarrow> color t = color piece)
            then invalid ''Pawns can only capture diagonally.''
            else ok)
         else invalid ''Invalid pawn movement.'')"

definition pieceMove ::
  "GameState \<Rightarrow> Piece \<Rightarrow> Piece option \<Rightarrow> Position \<Rightarrow> Position \<Rightarrow> (error + Validation) option" where
  "pieceMove gameState piece targetPiece from to =
     (case ptype piece of
        ROOK \<Rightarrow> rookMove (board gameState) from to
      | BISHOP \<Rightarrow> bishopMove (board gameState) from to
      | KNIGHT \<Rightarrow> Some (Inr (knightMove from to))
      | PAWN \<Rightarrow> Some (Inr (pawnMove (pawnDirections gameState) piece targetPiece from to)))"

definition isValidMove ::
  "GameState \<Rightarrow> Piece \<Rightarrow> Position \<Rightarrow> Position \<Rightarrow> (error + Validation) option" where
  "isValidMove gameState piece from to =
     (if row to < 0 \<or> row to \<ge> int GRID_SIZE \<or> col to < 0 \<or> col to \<ge> int GRID_SIZE
      then Some (Inr (invalid ''Move is out of bounds.''))
      else case readAt (board gameState) to of
        Inl e \<Rightarrow> Some (Inl e)
      | Inr targetPiece \<Rightarrow>
          if (case targetPiece of None \<Rightarrow> False | Some t \<Rightarrow> color t = color piece)
          then Some (Inr (invalid ''You cannot capture your own piece.''))
          else pieceMove gameState piece targetPiece from to)"

section \<open>Move generator (gameLogic.ts, getLegalMoves)\<close>

text \<open>
  \<open>Array.from(new Set(hand))\<close> keeps the first occurrence of each kind, in order.
\<close>

definition uniqueHandPieces :: "PieceType list \<Rightarrow> PieceType list" where
  "uniqueHandPieces h = foldl (\<lambda>acc t. if t \<in> set acc then acc else acc @ [t]) [] h"

definition placeMove :: "PieceType \<Rightarrow> nat \<Rightarrow> nat \<Rightarrow> Move" where
  "placeMove t i j =
     \<lparr>mtype = Place, pieceType = t, mfrom = None, mto = mkPos i j,
      captured = None, pieceId = None, logicFeedback = None\<rparr>"

definition boardMove :: "Board \<Rightarrow> Piece \<Rightarrow> nat \<Rightarrow> nat \<Rightarrow> nat \<Rightarrow> nat \<Rightarrow> Move" where
  "boardMove b piece i j ti tj =
     \<lparr>mtype = Relocate, pieceType = ptype piece, mfrom = Some (mkPos i j), mto = mkPos ti tj,
      captured = cell b ti tj, pieceId = None, logicFeedback = None\<rparr>"

definition placementMoves :: "Board \<Rightarrow> PieceType list \<Rightarrow> Move list" where
  "placementMoves b colorHand =
     concat (map (\<lambda>t.
       concat (map (\<lambda>i.
         concat (map (\<lambda>j. if cell b i j = None then [placeMove t i j] else [])
                     [0..<GRID_SIZE]))
         [0..<GRID_SIZE]))
       (uniqueHandPieces colorHand))"

text \<open>
  The validator can raise or, as far as its type goes, fail to return; either outcome ends
  the enumeration at the first square where it happens. \<open>None\<close> is not returning.
\<close>

fun collect :: "(error + 'a list) option list \<Rightarrow> (error + 'a list) option" where
  "collect [] = Some (Inr [])"
| "collect (x # xs) =
     (case x of
        None \<Rightarrow> None
      | Some (Inl e) \<Rightarrow> Some (Inl e)
      | Some (Inr ys) \<Rightarrow>
          (case collect xs of
             None \<Rightarrow> None
           | Some (Inl e) \<Rightarrow> Some (Inl e)
           | Some (Inr zs) \<Rightarrow> Some (Inr (ys @ zs))))"

definition targetMoves :: "GameState \<Rightarrow> Piece \<Rightarrow> nat \<Rightarrow> nat \<Rightarrow> (error + Move list) option" where
  "targetMoves gameState piece i j =
     collect (map (\<lambda>ti.
       collect (map (\<lambda>tj.
         if i = ti \<and> j = tj then Some (Inr [])
         else (case isValidMove gameState piece (mkPos i j) (mkPos ti tj) of
                 None \<Rightarrow> None
               | Some (Inl e) \<Rightarrow> Some (Inl e)
               | Some (Inr validation) \<Rightarrow>
                   Some (Inr (if valid validation
                              then [boardMove (board gameState) piece i j ti tj] else []))))
         [0..<GRID_SIZE]))
       [0..<GRID_SIZE])"

definition boardMoves :: "GameState \<Rightarrow> Color \<Rightarrow> (error + Move list) option" where
  "boardMoves gameState p =
     collect (map (\<lambda>i.
       collect (map (\<lambda>j.
         (case cell (board gameState) i j of
            None \<Rightarrow> Some (Inr [])
          | Some piece \<Rightarrow>
              if color piece = p then targetMoves gameState piece i j else Some (Inr [])))
         [0..<GRID_SIZE]))
       [0..<GRID_SIZE])"

definition getLegalMoves :: "GameState \<Rightarrow> Color \<Rightarrow> (error + Move list) option" where
  "getLegalMoves gameState p =
     (case boardMoves gameState p of
        None \<Rightarrow> None
      | Some (Inl e) \<Rightarrow> Some (Inl e)
      | Some (Inr ms) \<Rightarrow>
          Some (Inr (placementMoves (board gameState) (get (hands gameState) p) @ ms)))"


section \<open>State transition (App.tsx, resetGame and executeMove)\<close>

text \<open>
  \<open>p.charAt(0).toUpperCase() + p.slice(1)\<close> for the two color names.
\<close>

definition capitalized :: "Color \<Rightarrow> string" where
  "capitalized p = (case p of White \<Rightarrow> ''White'' | Black \<Rightarrow> ''Black'')"

definition resetGame :: "GameMode \<Rightarrow> Difficulty \<Rightarrow> Color \<Rightarrow> GameState" where
  "resetGame mode diff firstPlayer =
     (let emptyBoard = createEmptyBoard;
          initialHands = \<lparr>white = INITIAL_HAND, black = INITIAL_HAND\<rparr>;
          initialPawnDirs = \<lparr>white = - 1, black = 1\<rparr>;
          initialHash = serializeState emptyBoard initialHands firstPlayer initialPawnDirs
      in \<lparr>board = emptyBoard,
          hands = initialHands,
          pawnDirections = initialPawnDirs,
          currentPlayer = firstPlayer,
          winner = None,
          winningLine = None,
          history = [],
          statusMessage = (if mode = Online then ''Waiting for players...''
                           else capitalized firstPlayer @ [CHR 39] @ ''s turn.''),
          gameMode = mode,
          difficulty = diff,
          positionCounts = [initialHash \<mapsto> 1]\<rparr>)"

text \<open>
  \<open>executeMove\<close> is the updater passed to \<open>setGameState\<close>. Its inputs beyond the
  state and the move are the component's \<open>myColor\<close> and the clock value that
  \<open>Date.now()\<close> returns. Sounds and the message sent to the peer are not part of the
  state and are left out. \<open>applyMove\<close> is the part of the updater after the moving piece
  has been determined: the capture and the write of the destination square; \<open>finishMove\<close>
  is the rest of it, from the pawn directions to the returned object.
\<close>

definition winnerStr :: "Color \<Rightarrow> string" where
  "winnerStr p = (case p of White \<Rightarrow> ''WHITE'' | Black \<Rightarrow> ''BLACK'')"

definition turnMessage :: "Color option \<Rightarrow> GameState \<Rightarrow> Color \<Rightarrow> string" where
  "turnMessage myColor prev nextPlayer =
     (if gameMode prev = Online then
        (if myColor = Some nextPlayer then ''Your Turn'' else ''Opponent's Turn'')
      else if gameMode prev = AI then
        (if nextPlayer = White then ''Your Turn''
         else ''CPU Thinking ('' @ difficultyStr (difficulty prev) @ '')...'')
      else capitalized nextPlayer @ [CHR 39] @ ''s Turn'')"

definition finishMove ::
  "Color option \<Rightarrow> GameState \<Rightarrow> Move \<Rightarrow> Board \<Rightarrow> PieceType list PerColor \<Rightarrow> Piece
     \<Rightarrow> GameState" where
  "finishMove myColor prev move newBoard newHands activePiece =
     (let player = currentPlayer prev;
          opponent = other player;
          dirs0 = pawnDirections prev;
          dirs1 = (if ptype activePiece = PAWN \<and> row (mto move) = 0
                   then put dirs0 player 1 else dirs0);
          newPawnDirs = (if ptype activePiece = PAWN \<and> row (mto move) = int GRID_SIZE - 1
                         then put dirs1 player (- 1) else dirs1);
          winLine = checkWin newBoard player;
          winner0 = (if winLine \<noteq> None then Some (Won player) else None);
          nextPlayer = (if winner0 \<noteq> None then player else opponent);
          hash = serializeState newBoard newHands nextPlayer newPawnDirs;
          count = (case positionCounts prev hash of None \<Rightarrow> 0 | Some n \<Rightarrow> n) + 1;
          newPositionCounts = (if winner0 = None then (positionCounts prev)(hash \<mapsto> count)
                               else positionCounts prev);
          winner1 = (if winner0 = None \<and> count \<ge> 3 then Some Draw else winner0);
          msg0 = (case logicFeedback move of None \<Rightarrow> [] | Some t \<Rightarrow> t);
          msg = (case winner1 of
                   Some Draw \<Rightarrow> ''DRAW: 3-FOLD REPETITION''
                 | Some (Won w) \<Rightarrow> winnerStr w @ '' WINS!''
                 | None \<Rightarrow> (if msg0 = [] then turnMessage myColor prev nextPlayer else msg0))
      in prev\<lparr>board := newBoard,
              hands := newHands,
              pawnDirections := newPawnDirs,
              currentPlayer := nextPlayer,
              winner := winner1,
              winningLine := winLine,
              history := history prev @ [move],
              statusMessage := msg,
              positionCounts := newPositionCounts\<rparr>)"

definition applyMove ::
  "Color option \<Rightarrow> GameState \<Rightarrow> Move \<Rightarrow> Board \<Rightarrow> PieceType list PerColor \<Rightarrow> Piece
     \<Rightarrow> error + GameState" where
  "applyMove myColor prev move newBoard0 newHands0 activePiece =
     (case readAt newBoard0 (mto move) of
        Inl e \<Rightarrow> Inl e
      | Inr targetCell \<Rightarrow>
         (let opponent = other (currentPlayer prev);
              newHands = (case targetCell of
                            None \<Rightarrow> newHands0
                          | Some t \<Rightarrow> put newHands0 opponent (get newHands0 opponent @ [ptype t]))
          in case writeAt newBoard0 (mto move) (Some activePiece) of
            Inl e \<Rightarrow> Inl e
          | Inr newBoard \<Rightarrow> Inr (finishMove myColor prev move newBoard newHands activePiece)))"

definition freshId :: "Color \<Rightarrow> PieceType \<Rightarrow> nat \<Rightarrow> string" where
  "freshId player t now = colorStr player @ ''-'' @ [typeChar t] @ ''-'' @ digits now"

definition executeMove :: "Color option \<Rightarrow> nat \<Rightarrow> GameState \<Rightarrow> Move \<Rightarrow> error + GameState" where
  "executeMove myColor now prev move =
     (if winner prev \<noteq> None then Inr prev
      else
        let newBoard = copyBoard (board prev);
            player = currentPlayer prev in
        case mtype move of
          Place \<Rightarrow>
            if pieceType move \<notin> set (get (hands prev) player) then Inr prev
            else
              applyMove myColor prev move newBoard
                (put (hands prev) player (remove1 (pieceType move) (get (hands prev) player)))
                \<lparr>ptype = pieceType move, color = player,
                 pid = (case pieceId move of
                          None \<Rightarrow> freshId player (pieceType move) now
                        | Some i \<Rightarrow> if i = [] then freshId player (pieceType move) now else i)\<rparr>
        | Relocate \<Rightarrow>
            (case mfrom move of
               None \<Rightarrow> Inl TypeError
             | Some f \<Rightarrow>
                 (case readAt newBoard f of
                    Inl e \<Rightarrow> Inl e
                  | Inr None \<Rightarrow> Inr prev
                  | Inr (Some fromPiece) \<Rightarrow>
                      (case writeAt newBoard f None of
                         Inl e \<Rightarrow> Inl e
                       | Inr newBoard0 \<Rightarrow>
                           applyMove myColor prev move newBoard0 (hands prev) fromPiece))))"

section \<open>Evaluator and search (cpuOpponent.ts)\<close>

definition WIN :: int where "WIN = 100000"
definition THREE_IN_ROW :: int where "THREE_IN_ROW = 1000"
definition TWO_IN_ROW :: int where "TWO_IN_ROW = 100"
definition CENTER :: int where "CENTER = 80"
definition PIECE_ON_BOARD :: int where "PIECE_ON_BOARD = 50"
definition PIECE_IN_HAND :: int where "PIECE_IN_HAND = 30"

definition CENTER_SQUARES :: "Position list" where
  "CENTER_SQUARES = [mkPos 1 1, mkPos 1 2, mkPos 2 1, mkPos 2 2]"

definition getLines :: "Position list list" where
  "getLines =
     concat (map (\<lambda>i. [map (\<lambda>j. mkPos i j) [0..<GRID_SIZE],
                         map (\<lambda>j. mkPos j i) [0..<GRID_SIZE]]) [0..<GRID_SIZE])
     @ [map (\<lambda>i. mkPos i i) [0..<GRID_SIZE],
        map (\<lambda>i. mkPos i (GRID_SIZE - 1 - i)) [0..<GRID_SIZE]]"

text \<open>
  \<open>THREE_IN_ROW * 1.5\<close> is the integer 1500, written here as \<open>THREE_IN_ROW * 3 div 2\<close>.
\<close>

definition lineScore :: "Board \<Rightarrow> Color \<Rightarrow> Position list \<Rightarrow> int" where
  "lineScore b aiColor line =
     (let mine = length (filter (ownedBy b aiColor) line);
          theirs = length (filter (ownedBy b (other aiColor)) line)
      in (if theirs = 0 then (if mine = 3 then THREE_IN_ROW
                              else if mine = 2 then TWO_IN_ROW else 0) else 0)
         - (if mine = 0 then (if theirs = 3 then THREE_IN_ROW * 3 div 2
                              else if theirs = 2 then TWO_IN_ROW else 0) else 0))"

definition squareScore :: "Board \<Rightarrow> Color \<Rightarrow> nat \<Rightarrow> nat \<Rightarrow> int" where
  "squareScore b aiColor i j =
     (case cell b i j of
        None \<Rightarrow> 0
      | Some p \<Rightarrow>
          (let val = PIECE_ON_BOARD
                     + (if list_ex (\<lambda>cs. row cs = int i \<and> col cs = int j) CENTER_SQUARES
                        then CENTER else 0)
           in if color p = aiColor then val else - val))"

definition evaluateBoard :: "Board \<Rightarrow> PieceType list PerColor \<Rightarrow> Color \<Rightarrow> int" where
  "evaluateBoard b h aiColor =
     (let opponent = other aiColor
      in if checkWin b aiColor \<noteq> None then WIN
         else if checkWin b opponent \<noteq> None then - WIN
         else sum_list (map (lineScore b aiColor) getLines)
              + sum_list (map (\<lambda>i. sum_list (map (\<lambda>j. squareScore b aiColor i j)
                                                  [0..<GRID_SIZE])) [0..<GRID_SIZE])
              + int (length (get h aiColor)) * PIECE_IN_HAND
              - int (length (get h opponent)) * PIECE_IN_HAND)"

text \<open>
  \<open>simulateMove\<close> works on a copy of the board, as \<open>executeMove\<close> does. It reads
  the origin square without looking at what it finds, so the moving piece may be
  \<open>null\<close> or \<open>undefined\<close>; a move of type \<open>move\<close> without an origin raises.
\<close>

definition simulateMove :: "GameState \<Rightarrow> Move \<Rightarrow> error + GameState" where
  "simulateMove gameState move =
     (let newBoard0 = copyBoard (board gameState);
          player = currentPlayer gameState;
          opponent = other player;
          h = hands gameState
      in case mtype move of
        Place \<Rightarrow>
          (case writeAt newBoard0 (mto move)
                  (Some \<lparr>ptype = pieceType move, color = player, pid = ''sim''\<rparr>) of
             Inl e \<Rightarrow> Inl e
           | Inr newBoard \<Rightarrow>
               Inr (gameState\<lparr>board := newBoard,
                              hands := put h player (remove1 (pieceType move) (get h player)),
                              currentPlayer := opponent\<rparr>))
      | Relocate \<Rightarrow>
          (case mfrom move of
             None \<Rightarrow> Inl TypeError
           | Some f \<Rightarrow>
              (case readAt newBoard0 f of
                 Inl e \<Rightarrow> Inl e
               | Inr p \<Rightarrow>
                  (case writeAt newBoard0 f None of
                     Inl e \<Rightarrow> Inl e
                   | Inr b1 \<Rightarrow>
                      (case readAt b1 (mto move) of
                         Inl e \<Rightarrow> Inl e
                       | Inr target \<Rightarrow>
                          (case writeAt b1 (mto move) p of
                             Inl e \<Rightarrow> Inl e
                           | Inr newBoard \<Rightarrow>
                               Inr (gameState\<lparr>board := newBoard,
                                      hands := (case target of
                                                  None \<Rightarrow> h
                                                | Some t \<Rightarrow> put h opponent (get h opponent @ [ptype t])),
                                      currentPlayer := opponent\<rparr>)))))))"


subsection \<open>Scores: JavaScript numbers that are integers or infinite\<close>

datatype num = NegInf | Fin int | PosInf

instantiation num :: linorder
begin

fun less_eq_num :: "num \<Rightarrow> num \<Rightarrow> bool" where
  "less_eq_num NegInf y = True"
| "less_eq_num (Fin a) NegInf = False"
| "less_eq_num (Fin a) (Fin b) = (a \<le> b)"
| "less_eq_num (Fin a) PosInf = True"
| "less_eq_num PosInf PosInf = True"
| "less_eq_num PosInf y = False"

definition less_num :: "num \<Rightarrow> num \<Rightarrow> bool" where
  "less_num x y \<longleftrightarrow> x \<le> y \<and> \<not> y \<le> x"

instance
proof
  fix x y z :: num
  show "(x < y) = (x \<le> y \<and> \<not> y \<le> x)" by (simp add: less_num_def)
  show "x \<le> x" by (cases x) auto
  show "x \<le> y \<Longrightarrow> y \<le> z \<Longrightarrow> x \<le> z" by (cases x; cases y; cases z) auto
  show "x \<le> y \<Longrightarrow> y \<le> x \<Longrightarrow> x = y" by (cases x; cases y) auto
  show "x \<le> y \<or> y \<le> x" by (cases x; cases y) auto
qed

end

subsection \<open>Propagating exceptions and non-termination\<close>

definition andThen :: "(error + 'a) option \<Rightarrow> ('a \<Rightarrow> (error + 'b) option) \<Rightarrow> (error + 'b) option" where
  "andThen x f = (case x of None \<Rightarrow> None | Some (Inl e) \<Rightarrow> Some (Inl e) | Some (Inr v) \<Rightarrow> f v)"

lemma andThen_cong [fundef_cong]:
  "x = y \<Longrightarrow> (\<And>v. y = Some (Inr v) \<Longrightarrow> f v = g v) \<Longrightarrow> andThen x f = andThen y g"
  by (auto simp: andThen_def split: option.splits sum.splits)

subsection \<open>minimax\<close>

function minimax :: "GameState \<Rightarrow> nat \<Rightarrow> num \<Rightarrow> num \<Rightarrow> bool \<Rightarrow> Color \<Rightarrow> (error + num) option"
  and maxLoop :: "GameState \<Rightarrow> nat \<Rightarrow> Move list \<Rightarrow> num \<Rightarrow> num \<Rightarrow> num \<Rightarrow> Color \<Rightarrow> (error + num) option"
  and minLoop :: "GameState \<Rightarrow> nat \<Rightarrow> Move list \<Rightarrow> num \<Rightarrow> num \<Rightarrow> num \<Rightarrow> Color \<Rightarrow> (error + num) option"
where
  "minimax gameState depth alpha beta isMaximizing aiColor =
     (if depth = 0 \<or> checkWin (board gameState) White \<noteq> None
         \<or> checkWin (board gameState) Black \<noteq> None
      then Some (Inr (Fin (evaluateBoard (board gameState) (hands gameState) aiColor)))
      else andThen (getLegalMoves gameState (currentPlayer gameState)) (\<lambda>moves.
        if moves = [] then Some (Inr (Fin 0))
        else if isMaximizing
          then maxLoop gameState (depth - 1) moves NegInf alpha beta aiColor
          else minLoop gameState (depth - 1) moves PosInf alpha beta aiColor))"
| "maxLoop gameState d [] maxEval alpha beta aiColor = Some (Inr maxEval)"
| "maxLoop gameState d (move # rest) maxEval alpha beta aiColor =
     andThen (Some (simulateMove gameState move)) (\<lambda>child.
     andThen (minimax child d alpha beta False aiColor) (\<lambda>evalScore.
       let maxEval' = max maxEval evalScore;
           alpha' = max alpha evalScore
       in if beta \<le> alpha' then Some (Inr maxEval')
          else maxLoop gameState d rest maxEval' alpha' beta aiColor))"
| "minLoop gameState d [] minEval alpha beta aiColor = Some (Inr minEval)"
| "minLoop gameState d (move # rest) minEval alpha beta aiColor =
     andThen (Some (simulateMove gameState move)) (\<lambda>child.
     andThen (minimax child d alpha beta True aiColor) (\<lambda>evalScore.
       let minEval' = min minEval evalScore;
           beta' = min beta evalScore
       in if beta' \<le> alpha then Some (Inr minEval')
          else minLoop gameState d rest minEval' alpha beta' aiColor))"
  by pat_completeness auto
termination
  by (relation "inv_image (less_than <*lex*> less_than)
        (\<lambda>x. case x of
           Inl (s, depth, a, b, mx, ai) \<Rightarrow> (2 * depth, 0)
         | Inr (Inl (s, d, ms, acc, a, b, ai)) \<Rightarrow> (2 * d + 1, length ms)
         | Inr (Inr (s, d, ms, acc, a, b, ai)) \<Rightarrow> (2 * d + 1, length ms))")
     auto

text \<open>
  The search of the same depth with no cut-off: every reply of every node is visited.
\<close>

function exhaustive :: "GameState \<Rightarrow> nat \<Rightarrow> bool \<Rightarrow> Color \<Rightarrow> (error + num) option"
  and exMaxLoop :: "GameState \<Rightarrow> nat \<Rightarrow> Move list \<Rightarrow> num \<Rightarrow> Color \<Rightarrow> (error + num) option"
  and exMinLoop :: "GameState \<Rightarrow> nat \<Rightarrow> Move list \<Rightarrow> num \<Rightarrow> Color \<Rightarrow> (error + num) option"
where
  "exhaustive gameState depth isMaximizing aiColor =
     (if depth = 0 \<or> checkWin (board gameState) White \<noteq> None
         \<or> checkWin (board gameState) Black \<noteq> None
      then Some (Inr (Fin (evaluateBoard (board gameState) (hands gameState) aiColor)))
      else andThen (getLegalMoves gameState (currentPlayer gameState)) (\<lambda>moves.
        if moves = [] then Some (Inr (Fin 0))
        else if isMaximizing
          then exMaxLoop gameState (depth - 1) moves NegInf aiColor
          else exMinLoop gameState (depth - 1) moves PosInf aiColor))"
| "exMaxLoop gameState d [] maxEval aiColor = Some (Inr maxEval)"
| "exMaxLoop gameState d (move # rest) maxEval aiColor =
     andThen (Some (simulateMove gameState move)) (\<lambda>child.
     andThen (exhaustive child d False aiColor) (\<lambda>evalScore.
       exMaxLoop gameState d rest (max maxEval evalScore) aiColor))"
| "exMinLoop gameState d [] minEval aiColor = Some (Inr minEval)"
| "exMinLoop gameState d (move # rest) minEval aiColor =
     andThen (Some (simulateMove gameState move)) (\<lambda>child.
     andThen (exhaustive child d True aiColor) (\<lambda>evalScore.
       exMinLoop gameState d rest (min minEval evalScore) aiColor))"
  by pat_completeness auto
termination
  by (relation "inv_image (less_than <*lex*> less_than)
        (\<lambda>x. case x of
           Inl (s, depth, mx, ai) \<Rightarrow> (2 * depth, 0)
         | Inr (Inl (s, d, ms, acc, ai)) \<Rightarrow> (2 * d + 1, length ms)
         | Inr (Inr (s, d, ms, acc, ai)) \<Rightarrow> (2 * d + 1, length ms))")
     auto


declare minimax.simps [simp del] exhaustive.simps [simp del]

subsection \<open>getCpuMove\<close>

text \<open>
  \<open>rnd\<close> is the value \<open>Math.random()\<close> returns on this call (it is called at most
  once). The 800 ms delay of Hard mode is left out.
\<close>

definition randomMove :: "real \<Rightarrow> Move list \<Rightarrow> Move" where
  "randomMove rnd moves = moves ! nat \<lfloor>rnd * real (length moves)\<rfloor>"

definition squareName :: "Position \<Rightarrow> string" where
  "squareName p = [char_of (65 + nat (col p))] @ numberToString (row p + 1)"

fun findWin :: "GameState \<Rightarrow> Color \<Rightarrow> Move list \<Rightarrow> error + Move option" where
  "findWin gameState player [] = Inr None"
| "findWin gameState player (move # rest) =
     (case simulateMove gameState move of
        Inl e \<Rightarrow> Inl e
      | Inr sim \<Rightarrow>
          if checkWin (board sim) player \<noteq> None
          then Inr (Some (move\<lparr>logicFeedback := Some ''CPU (Medium): Finishing the line for a win!''\<rparr>))
          else findWin gameState player rest)"

fun someWins :: "GameState \<Rightarrow> Color \<Rightarrow> Move list \<Rightarrow> error + bool" where
  "someWins sim opponent [] = Inr False"
| "someWins sim opponent (om # rest) =
     (case simulateMove sim om of
        Inl e \<Rightarrow> Inl e
      | Inr sim2 \<Rightarrow>
          if checkWin (board sim2) opponent \<noteq> None then Inr True
          else someWins sim opponent rest)"

text \<open>
  The second loop of Medium computes \<open>opponentWins\<close> for every move and does nothing with
  it; only an exception raised on the way could be observed.
\<close>

fun blockScan :: "GameState \<Rightarrow> Color \<Rightarrow> Move list \<Rightarrow> (error + unit) option" where
  "blockScan gameState opponent [] = Some (Inr ())"
| "blockScan gameState opponent (move # rest) =
     andThen (Some (simulateMove gameState move)) (\<lambda>sim.
     andThen (getLegalMoves sim opponent) (\<lambda>oms.
     andThen (Some (someWins sim opponent oms)) (\<lambda>opponentWins.
       blockScan gameState opponent rest)))"

definition threatOf :: "Board \<Rightarrow> Color \<Rightarrow> Position list \<Rightarrow> nat \<times> Position option" where
  "threatOf b opponent line =
     foldl (\<lambda>(oppCount, emptyPos) pos.
              (case cell b (nat (row pos)) (nat (col pos)) of
                 None \<Rightarrow> (oppCount, Some pos)
               | Some p \<Rightarrow> if color p = opponent then (oppCount + 1, emptyPos)
                           else (oppCount, emptyPos)))
           (0, None) line"

fun findBlock :: "Board \<Rightarrow> Color \<Rightarrow> Move list \<Rightarrow> Position list list \<Rightarrow> Move option" where
  "findBlock b opponent moves [] = None"
| "findBlock b opponent moves (line # rest) =
     (case threatOf b opponent line of
        (oppCount, Some emptyPos) \<Rightarrow>
          if oppCount = 3 then
            (case find (\<lambda>m. row (mto m) = row emptyPos \<and> col (mto m) = col emptyPos) moves of
               Some blockMove \<Rightarrow>
                 Some (blockMove\<lparr>logicFeedback :=
                         Some (''CPU (Medium): Blocking threat at '' @ squareName emptyPos)\<rparr>)
             | None \<Rightarrow> findBlock b opponent moves rest)
          else findBlock b opponent moves rest
      | (oppCount, None) \<Rightarrow> findBlock b opponent moves rest)"

definition captureMoves :: "Board \<Rightarrow> Move list \<Rightarrow> Move list" where
  "captureMoves b moves =
     filter (\<lambda>m. mtype m = Relocate \<and> cell b (nat (row (mto m))) (nat (col (mto m))) \<noteq> None) moves"

definition mediumMove :: "real \<Rightarrow> GameState \<Rightarrow> Move list \<Rightarrow> (error + Move option) option" where
  "mediumMove rnd gameState moves =
     (let player = currentPlayer gameState;
          opponent = other player
      in andThen (Some (findWin gameState player moves)) (\<lambda>w.
           case w of
             Some m \<Rightarrow> Some (Inr (Some m))
           | None \<Rightarrow>
               andThen (blockScan gameState opponent moves) (\<lambda>u.
                 case findBlock (board gameState) opponent moves getLines of
                   Some m \<Rightarrow> Some (Inr (Some m))
                 | None \<Rightarrow>
                     (case captureMoves (board gameState) moves of
                        m # ms \<Rightarrow>
                          Some (Inr (Some (m\<lparr>logicFeedback :=
                                  Some ''CPU (Medium): Prioritizing piece capture.''\<rparr>)))
                      | [] \<Rightarrow>
                          Some (Inr (Some ((randomMove rnd moves)\<lparr>logicFeedback :=
                                  Some ''CPU (Medium): No immediate threats, moving strategically.''\<rparr>)))))))"

fun hardLoop :: "GameState \<Rightarrow> Color \<Rightarrow> Move list \<Rightarrow> Move \<Rightarrow> num \<Rightarrow> (error + Move) option" where
  "hardLoop gameState player [] bestMove bestValue = Some (Inr bestMove)"
| "hardLoop gameState player (move # rest) bestMove bestValue =
     andThen (Some (simulateMove gameState move)) (\<lambda>child.
     andThen (minimax child 3 NegInf PosInf False player) (\<lambda>boardValue.
       if boardValue > bestValue then hardLoop gameState player rest move boardValue
       else hardLoop gameState player rest bestMove bestValue))"

definition hardFeedback :: "Move \<Rightarrow> string" where
  "hardFeedback bestMove =
     (let isCenter = list_ex (\<lambda>cs. row cs = row (mto bestMove) \<and> col cs = col (mto bestMove))
                             CENTER_SQUARES
      in if mtype bestMove = Place
         then ''CPU (Hard): Tactical drop to '' @ squareName (mto bestMove) @ ''.''
         else ''CPU (Hard): Calculated move to ''
              @ (if isCenter then ''Center'' else ''strategic square'') @ ''.'')"

definition getCpuMove :: "real \<Rightarrow> GameState \<Rightarrow> (error + Move option) option" where
  "getCpuMove rnd gameState =
     andThen (getLegalMoves gameState (currentPlayer gameState)) (\<lambda>moves.
       if moves = [] then Some (Inr None)
       else if difficulty gameState = Easy then
         Some (Inr (Some ((randomMove rnd moves)\<lparr>logicFeedback :=
                 Some ''CPU (Easy): Choosing a move at random.''\<rparr>)))
       else if difficulty gameState = Medium then mediumMove rnd gameState moves
       else
         andThen (hardLoop gameState (currentPlayer gameState) moves (hd moves) NegInf)
           (\<lambda>bestMove. Some (Inr (Some (bestMove\<lparr>logicFeedback := Some (hardFeedback bestMove)\<rparr>)))))"


section \<open>Notions used in the statements\<close>

text \<open>
  A move is applied when \<open>executeMove\<close> gets past its guards: the game has no winner, a
  placed kind is in the mover's hand, a relocation starts from a square that is occupied
  in the copy of the board the updater works on.
  \<open>movedKind\<close> is the kind of the piece that then lands on the destination.
\<close>

definition applied :: "GameState \<Rightarrow> Move \<Rightarrow> bool" where
  "applied s m \<longleftrightarrow>
     winner s = None \<and>
     (case mtype m of
        Place \<Rightarrow> pieceType m \<in> set (get (hands s) (currentPlayer s))
      | Relocate \<Rightarrow>
          (case mfrom m of
             None \<Rightarrow> False
           | Some f \<Rightarrow>
               (case readAt (copyBoard (board s)) f of Inr (Some p) \<Rightarrow> True | _ \<Rightarrow> False)))"

definition movedKind :: "GameState \<Rightarrow> Move \<Rightarrow> PieceType" where
  "movedKind s m =
     (case mtype m of
        Place \<Rightarrow> pieceType m
      | Relocate \<Rightarrow>
          (case mfrom m of
             None \<Rightarrow> pieceType m
           | Some f \<Rightarrow>
               (case readAt (copyBoard (board s)) f of
                  Inr (Some p) \<Rightarrow> ptype p
                | _ \<Rightarrow> pieceType m)))"

text \<open>
  The count of a key in a state, an absent key counting as 0, and the key of a state.
\<close>

definition countOf :: "GameState \<Rightarrow> string \<Rightarrow> nat" where
  "countOf s k = (case positionCounts s k of None \<Rightarrow> 0 | Some n \<Rightarrow> n)"

definition keyOf :: "GameState \<Rightarrow> string" where
  "keyOf s = serializeState (board s) (hands s) (currentPlayer s) (pawnDirections s)"



text \<open>
  Squares of the grid, and moves whose squares are on it.
\<close>

definition inGrid :: "Position \<Rightarrow> bool" where
  "inGrid p \<longleftrightarrow> 0 \<le> row p \<and> row p < int GRID_SIZE \<and> 0 \<le> col p \<and> col p < int GRID_SIZE"

definition gridMove :: "Move \<Rightarrow> bool" where
  "gridMove m \<longleftrightarrow>
     inGrid (mto m) \<and>
     (case mtype m of
        Place \<Rightarrow> True
      | Relocate \<Rightarrow> (case mfrom m of None \<Rightarrow> False | Some f \<Rightarrow> inGrid f))"

text \<open>
  A move of a player's own: it takes a kind from the player's hand to a square of the
  grid, or a piece of the player's from one square of the grid to another.
\<close>

definition ownMove :: "GameState \<Rightarrow> Color \<Rightarrow> Move \<Rightarrow> bool" where
  "ownMove s p m \<longleftrightarrow>
     inGrid (mto m) \<and>
     (case mtype m of
        Place \<Rightarrow> pieceType m \<in> set (get (hands s) p)
      | Relocate \<Rightarrow>
          (case mfrom m of
             None \<Rightarrow> False
           | Some f \<Rightarrow>
               inGrid f \<and>
               (case cell (board s) (nat (row f)) (nat (col f)) of
                  None \<Rightarrow> False
                | Some q \<Rightarrow> color q = p)))"

text \<open>
  The kinds of all pieces of a state, as a multiset: those standing in the rows of the
  board (on a board of the grid's shape, on its squares) and those in the two hands.
\<close>

definition cellKinds :: "Piece option \<Rightarrow> PieceType list" where
  "cellKinds x = (case x of None \<Rightarrow> [] | Some p \<Rightarrow> [ptype p])"

definition boardKinds :: "Board \<Rightarrow> PieceType multiset" where
  "boardKinds b = mset (concat (map cellKinds (flat b)))"

definition handKinds :: "PieceType list PerColor \<Rightarrow> PieceType multiset" where
  "handKinds h = mset (white h) + mset (black h)"

definition allKinds :: "GameState \<Rightarrow> PieceType multiset" where
  "allKinds s = boardKinds (board s) + handKinds (hands s)"

text \<open>
  The component's state is set by \<open>resetGame\<close>, by \<open>executeMove\<close>, and by the
  handler of a closed connection, which replaces the status message. A state is
  reachable when a game arrives at it through these, whatever moves \<open>executeMove\<close> is
  given (a move received from the peer is passed on as it comes); it is played on the
  grid when every move given had its squares on the grid, as the moves built by
  \<open>handleCellClick\<close> and by \<open>getLegalMoves\<close> have.
\<close>

inductive reachable :: "GameState \<Rightarrow> bool" where
  reset: "reachable (resetGame mode diff firstPlayer)"
| step: "reachable s \<Longrightarrow> executeMove myColor now s m = Inr s' \<Longrightarrow> reachable s'"
| left: "reachable s \<Longrightarrow> reachable (s\<lparr>statusMessage := ''Opponent left the match.''\<rparr>)"

inductive played :: "GameState \<Rightarrow> bool" where
  reset: "played (resetGame mode diff firstPlayer)"
| step: "played s \<Longrightarrow> gridMove m \<Longrightarrow> executeMove myColor now s m = Inr s' \<Longrightarrow> played s'"
| left: "played s \<Longrightarrow> played (s\<lparr>statusMessage := ''Opponent left the match.''\<rparr>)"

text \<open>
  The states the evaluator is given. \<open>getCpuMove\<close> is called on a state of the game
  that has no winner; it hands \<open>minimax\<close> the state after each legal move, and
  \<open>minimax\<close> does the same from every state it is given on which neither color has a
  line. \<open>evaluateBoard\<close> is called from \<open>minimax\<close> only, on the state it was given.
\<close>

inductive searched :: "GameState \<Rightarrow> bool" where
  first: "reachable s \<Longrightarrow> winner s = None
            \<Longrightarrow> getLegalMoves s (currentPlayer s) = Some (Inr ms) \<Longrightarrow> m \<in> set ms
            \<Longrightarrow> simulateMove s m = Inr c \<Longrightarrow> searched c"
| deeper: "searched s \<Longrightarrow> checkWin (board s) White = None \<Longrightarrow> checkWin (board s) Black = None
            \<Longrightarrow> getLegalMoves s (currentPlayer s) = Some (Inr ms) \<Longrightarrow> m \<in> set ms
            \<Longrightarrow> simulateMove s m = Inr c \<Longrightarrow> searched c"

text \<open>
  A returned value \<open>R\<close> agrees with the exact value \<open>V\<close> as far as the window from
  \<open>a\<close> to \<open>b\<close> can tell: inside the window it is \<open>V\<close>, at or below \<open>a\<close> it is an
  upper bound of \<open>V\<close>, at or above \<open>b\<close> a lower bound. \<open>exhaustiveValue\<close> is the score of
  a move found without pruning: the exhaustive search, three plies deep, of the position
  after it.
\<close>

definition agrees :: "num \<Rightarrow> num \<Rightarrow> num \<Rightarrow> num \<Rightarrow> bool" where
  "agrees a b R V \<longleftrightarrow> (R \<le> a \<longrightarrow> V \<le> R) \<and> (b \<le> R \<longrightarrow> R \<le> V) \<and> (a < R \<and> R < b \<longrightarrow> R = V)"

definition exhaustiveValue :: "GameState \<Rightarrow> Move \<Rightarrow> (error + num) option" where
  "exhaustiveValue s m =
     (case simulateMove s m of
        Inl e \<Rightarrow> Some (Inl e)
      | Inr child \<Rightarrow> exhaustive child 3 False (currentPlayer s))"

section \<open>Concrete positions\<close>

text \<open>
  The start of a local game, the placement of a pawn on row 0 at column \<open>-1\<close>, a
  move as a peer can send it, and the relocation that \<open>handleCellClick\<close> builds.
\<close>

definition start :: GameState where
  "start = resetGame Local Medium White"

definition besideBoard :: Move where
  "besideBoard =
     \<lparr>mtype = Place, pieceType = PAWN, mfrom = None, mto = \<lparr>row = 0, col = - 1\<rparr>,
      captured = None, pieceId = None, logicFeedback = None\<rparr>"

definition clickMove :: "PieceType \<Rightarrow> nat \<Rightarrow> nat \<Rightarrow> nat \<Rightarrow> nat \<Rightarrow> Move" where
  "clickMove t i j ti tj =
     \<lparr>mtype = Relocate, pieceType = t, mfrom = Some (mkPos i j), mto = mkPos ti tj,
      captured = None, pieceId = None, logicFeedback = None\<rparr>"

text \<open>
  White's rook on (0,0) and Black's bishop on (0,3), White to move; and the same board
  with other piece ids.
\<close>

definition rookFacesBishop :: GameState where
  "rookFacesBishop =
     \<lparr>board = map arrayOf [[Some \<lparr>ptype = ROOK, color = White, pid = ''white-R-1''\<rparr>, None, None,
                 Some \<lparr>ptype = BISHOP, color = Black, pid = ''black-B-2''\<rparr>],
                [None, None, None, None], [None, None, None, None], [None, None, None, None]],
      hands = \<lparr>white = [PAWN, KNIGHT, BISHOP], black = [PAWN, ROOK, KNIGHT]\<rparr>,
      pawnDirections = \<lparr>white = - 1, black = 1\<rparr>,
      currentPlayer = White, winner = None, winningLine = None, history = [],
      statusMessage = ''White's Turn'', gameMode = Local, difficulty = Medium,
      positionCounts = Map.empty\<rparr>"


text \<open>
  White's pawn on (1,0), one step from row 0, and Black's rook on (3,3), White to move.
\<close>

definition pawnBelowEdge :: GameState where
  "pawnBelowEdge =
     \<lparr>board = map arrayOf [[None, None, None, None],
                [Some \<lparr>ptype = PAWN, color = White, pid = ''white-P-1''\<rparr>, None, None, None],
                [None, None, None, None],
                [None, None, None, Some \<lparr>ptype = ROOK, color = Black, pid = ''black-R-2''\<rparr>]],
      hands = \<lparr>white = [ROOK, KNIGHT, BISHOP], black = [PAWN, KNIGHT, BISHOP]\<rparr>,
      pawnDirections = \<lparr>white = - 1, black = 1\<rparr>,
      currentPlayer = White, winner = None, winningLine = None, history = [],
      statusMessage = ''White's Turn'', gameMode = Local, difficulty = Medium,
      positionCounts = Map.empty\<rparr>"

text \<open>
  Two knights that have gone back and forth: the position after Black's knight returns
  to (3,3) has been counted twice already.
\<close>

definition knightsReturn :: GameState where
  "knightsReturn =
     \<lparr>board = map arrayOf [[Some \<lparr>ptype = KNIGHT, color = White, pid = ''white-N-1''\<rparr>, None, None, None],
                [None, None, None, None],
                [None, Some \<lparr>ptype = KNIGHT, color = Black, pid = ''black-N-2''\<rparr>, None, None],
                [None, None, None, None]],
      hands = \<lparr>white = [PAWN, ROOK, BISHOP], black = [PAWN, ROOK, BISHOP]\<rparr>,
      pawnDirections = \<lparr>white = - 1, black = 1\<rparr>,
      currentPlayer = Black, winner = None, winningLine = None, history = [],
      statusMessage = ''Black's Turn'', gameMode = Local, difficulty = Medium,
      positionCounts =
        [''whiteN,-,-,-,-,-,-,-,-,-,-,-,-,-,-,blackN|BPR|BPR|white|-1,1'' \<mapsto> 2,
         ''whiteN,-,-,-,-,-,-,-,-,blackN,-,-,-,-,-,-|BPR|BPR|black|-1,1'' \<mapsto> 2]\<rparr>"

text \<open>
  White holds all of row 1; and the same board with the last square of that row empty.
\<close>

definition fourInRow :: Board where
  "fourInRow = map arrayOf
     [[None, Some \<lparr>ptype = PAWN, color = Black, pid = ''black-P-5''\<rparr>, None, None],
      [Some \<lparr>ptype = ROOK, color = White, pid = ''white-R-1''\<rparr>,
       Some \<lparr>ptype = KNIGHT, color = White, pid = ''white-N-2''\<rparr>,
       Some \<lparr>ptype = BISHOP, color = White, pid = ''white-B-3''\<rparr>,
       Some \<lparr>ptype = PAWN, color = White, pid = ''white-P-4''\<rparr>],
      [None, None, None, None],
      [None, None, None, None]]"

definition threeInRow :: Board where
  "threeInRow = map arrayOf
     [[None, Some \<lparr>ptype = PAWN, color = Black, pid = ''black-P-5''\<rparr>, None, None],
      [Some \<lparr>ptype = ROOK, color = White, pid = ''white-R-1''\<rparr>,
       Some \<lparr>ptype = KNIGHT, color = White, pid = ''white-N-2''\<rparr>,
       Some \<lparr>ptype = BISHOP, color = White, pid = ''white-B-3''\<rparr>,
       None],
      [None, None, None, None],
      [None, None, None, None]]"

text \<open>
  Every piece on the board, Black to move, in Hard mode and in Medium mode; and the
  position after White's first placement in a game against the CPU on Medium.
\<close>

definition crowded :: GameState where
  "crowded =
     \<lparr>board = map arrayOf [[Some \<lparr>ptype = ROOK, color = White, pid = ''white-R-1''\<rparr>, None, None,
                 Some \<lparr>ptype = BISHOP, color = Black, pid = ''black-B-2''\<rparr>],
                [None, Some \<lparr>ptype = KNIGHT, color = White, pid = ''white-N-3''\<rparr>,
                 Some \<lparr>ptype = PAWN, color = Black, pid = ''black-P-4''\<rparr>, None],
                [None, Some \<lparr>ptype = PAWN, color = White, pid = ''white-P-5''\<rparr>,
                 Some \<lparr>ptype = KNIGHT, color = Black, pid = ''black-N-6''\<rparr>, None],
                [Some \<lparr>ptype = BISHOP, color = White, pid = ''white-B-7''\<rparr>, None, None,
                 Some \<lparr>ptype = ROOK, color = Black, pid = ''black-R-8''\<rparr>]],
      hands = \<lparr>white = [], black = []\<rparr>,
      pawnDirections = \<lparr>white = - 1, black = 1\<rparr>,
      currentPlayer = Black, winner = None, winningLine = None, history = [],
      statusMessage = ''CPU Thinking (hard)...'', gameMode = AI, difficulty = Hard,
      positionCounts = Map.empty\<rparr>"

definition crowdedMedium :: GameState where
  "crowdedMedium = crowded\<lparr>difficulty := Medium\<rparr>"

definition mediumReply :: GameState where
  "mediumReply =
     \<lparr>board = map arrayOf [[Some \<lparr>ptype = ROOK, color = White, pid = ''white-R-1''\<rparr>, None, None, None],
                [None, None, None, None], [None, None, None, None], [None, None, None, None]],
      hands = \<lparr>white = [PAWN, KNIGHT, BISHOP], black = [PAWN, ROOK, KNIGHT, BISHOP]\<rparr>,
      pawnDirections = \<lparr>white = - 1, black = 1\<rparr>,
      currentPlayer = Black, winner = None, winningLine = None,
      history = [placeMove ROOK 0 0],
      statusMessage = ''CPU Thinking (medium)...'', gameMode = AI, difficulty = Medium,
      positionCounts = Map.empty\<rparr>"

section \<open>Basic facts\<close>

lemma get_put: "get (put h p v) q = (if p = q then v else get h q)"
  by (cases p; cases q) (auto simp: get_def put_def)

lemma other_neq: "other p \<noteq> p" "p \<noteq> other p"
  by (cases p; simp add: other_def)+

lemma not_isl_projr: "\<not> isl x \<Longrightarrow> x = Inr (projr x)"
  by (cases x) auto

subsection \<open>Arrays\<close>

lemma map_of_setNamed: "map_of (setNamed k v ps) k' = (if k' = k then Some v else map_of ps k')"
  by (induction ps) auto

lemma look_store_same: "look (store r c v) c = v"
  by (simp add: look_def store_def slotValue_def nth_append map_of_setNamed)

lemma look_store_other:
  assumes "c' \<noteq> c"
  shows "look (store r c v) c' = look r c'"
proof (cases "isIndex c")
  case False
  with assms show ?thesis by (simp add: look_def store_def map_of_setNamed)
next
  case True
  show ?thesis
  proof (cases "isIndex c'")
    case False
    with True show ?thesis by (simp add: look_def store_def)
  next
    case c': True
    with True assms have ne: "nat c' \<noteq> nat c" by (auto simp: isIndex_def)
    show ?thesis
    proof (cases "nat c < length (elems r)")
      case True
      with \<open>isIndex c\<close> c' ne show ?thesis by (simp add: look_def store_def nth_list_update)
    next
      case False
      with \<open>isIndex c\<close> c' ne show ?thesis
        by (auto simp: look_def store_def nth_append slotValue_def)
    qed
  qed
qed

lemma look_copyRow:
  "look (copyRow r) c = (if isIndex c \<and> nat c < length (elems r) then look r c else None)"
  by (simp add: look_def copyRow_def slotValue_def)

lemma look_arrayOf:
  "look (arrayOf xs) c = (if isIndex c \<and> nat c < length xs then xs ! nat c else None)"
  by (simp add: look_def arrayOf_def slotValue_def)

lemma copyRow_wf: "wf_row r \<Longrightarrow> copyRow r = r"
proof -
  assume w: "wf_row r"
  then have "\<forall>x \<in> set (elems r). Val (slotValue x) = x"
    by (auto simp: wf_row_def list_all_iff slotValue_def split: Slot.splits)
  then have "map (\<lambda>x. Val (slotValue x)) (elems r) = elems r" by (simp add: map_idI)
  with w show ?thesis by (simp add: copyRow_def wf_row_def)
qed

lemma copyBoard_wf: "wf_board b \<Longrightarrow> copyBoard b = b"
  by (simp add: copyBoard_def wf_board_def list_all_iff copyRow_wf map_idI)

lemma length_copyBoard [simp]: "length (copyBoard b) = length b"
  by (simp add: copyBoard_def)

lemma rowOk_copyBoard [simp]: "rowOk (copyBoard b) p = rowOk b p"
  by (simp add: rowOk_def)

subsection \<open>Squares\<close>

lemma rowOk_nat: "rowOk b p \<Longrightarrow> nat (row p) < length b"
  by (auto simp: rowOk_def)

lemma writeAt_Inr:
  assumes "writeAt b p v = Inr nb"
  shows "rowOk b p \<and> nb = b[nat (row p) := store (b ! nat (row p)) (col p) v]"
  using assms by (auto simp: writeAt_def split: if_splits)

lemma length_writeAt: "writeAt b p v = Inr nb \<Longrightarrow> length nb = length b"
  by (auto dest: writeAt_Inr)

lemma readAt_writeAt_other:
  assumes "writeAt b f v = Inr nb" "f \<noteq> p"
  shows "readAt nb p = readAt b p"
proof -
  from writeAt_Inr[OF assms(1)] have ok: "rowOk b f"
    and nb: "nb = b[nat (row f) := store (b ! nat (row f)) (col f) v]" by simp_all
  show ?thesis
  proof (cases "rowOk b p")
    case False
    then show ?thesis by (simp add: readAt_def nb rowOk_def)
  next
    case True
    show ?thesis
    proof (cases "row p = row f")
      case True
      with assms(2) have "col p \<noteq> col f" by (cases f; cases p) auto
      with True ok rowOk_nat[OF ok] show ?thesis
        by (simp add: readAt_def nb rowOk_def look_store_other)
    next
      case False
      with True ok have "nat (row p) \<noteq> nat (row f)" by (auto simp: rowOk_def)
      then show ?thesis by (simp add: readAt_def nb rowOk_def)
    qed
  qed
qed

lemma readAt_writeAt_same:
  assumes "writeAt b p v = Inr nb"
  shows "readAt nb p = Inr v"
  using writeAt_Inr[OF assms] rowOk_nat[of b p]
  by (simp add: readAt_def rowOk_def look_store_same)

lemma readAt_Some_inside:
  assumes "readAt b p = Inr (Some q)"
  shows "rowOk b p"
  using assms by (auto simp: readAt_def split: if_splits)

lemma readAt_copyBoard_wf: "wf_board b \<Longrightarrow> readAt (copyBoard b) p = readAt b p"
  by (simp add: copyBoard_wf)

section \<open>The state transition, field by field\<close>

lemma finishMove_fields:
  "board (finishMove myColor s m nb nh a) = nb"
  "hands (finishMove myColor s m nb nh a) = nh"
  "winningLine (finishMove myColor s m nb nh a) = checkWin nb (currentPlayer s)"
  "history (finishMove myColor s m nb nh a) = history s @ [m]"
  "gameMode (finishMove myColor s m nb nh a) = gameMode s"
  "difficulty (finishMove myColor s m nb nh a) = difficulty s"
  by (simp_all add: finishMove_def Let_def)

lemma finishMove_dirs:
  "pawnDirections (finishMove myColor s m nb nh a) =
     (if ptype a = PAWN \<and> row (mto m) = 0 then put (pawnDirections s) (currentPlayer s) 1
      else if ptype a = PAWN \<and> row (mto m) = int GRID_SIZE - 1
        then put (pawnDirections s) (currentPlayer s) (- 1)
      else pawnDirections s)"
  by (simp add: finishMove_def Let_def GRID_SIZE_def)

lemma finishMove_player:
  "currentPlayer (finishMove myColor s m nb nh a) =
     (if checkWin nb (currentPlayer s) \<noteq> None then currentPlayer s else other (currentPlayer s))"
  by (simp add: finishMove_def Let_def)

lemma finishMove_counts:
  assumes "s' = finishMove myColor s m nb nh a"
  shows "(checkWin (board s') (currentPlayer s) = None \<longrightarrow>
            currentPlayer s' = other (currentPlayer s)
          \<and> positionCounts s' = (positionCounts s)(keyOf s' \<mapsto> countOf s (keyOf s') + 1)
          \<and> winner s' = (if 3 \<le> countOf s (keyOf s') + 1 then Some Draw else None))
       \<and> (checkWin (board s') (currentPlayer s) \<noteq> None \<longrightarrow>
            positionCounts s' = positionCounts s \<and> winner s' = Some (Won (currentPlayer s))
          \<and> currentPlayer s' = currentPlayer s)"
proof (cases "checkWin nb (currentPlayer s)")
  case None
  then have k: "keyOf s' = serializeState nb nh (other (currentPlayer s)) (pawnDirections s')"
    unfolding keyOf_def assms by (simp add: finishMove_fields finishMove_player)
  have "pawnDirections s' =
     (let dirs0 = pawnDirections s;
          dirs1 = (if ptype a = PAWN \<and> row (mto m) = 0
                   then put dirs0 (currentPlayer s) 1 else dirs0)
      in (if ptype a = PAWN \<and> row (mto m) = int GRID_SIZE - 1
          then put dirs1 (currentPlayer s) (- 1) else dirs1))"
    unfolding assms by (simp add: finishMove_def Let_def)
  with None k show ?thesis
    unfolding assms by (simp add: finishMove_def Let_def countOf_def)
next
  case (Some l)
  then show ?thesis unfolding assms by (simp add: finishMove_def Let_def)
qed

lemma applyMove_Inr:
  assumes "applyMove myColor s m nb0 nh0 a = Inr s'"
  shows "\<exists>tc nb. readAt nb0 (mto m) = Inr tc \<and> writeAt nb0 (mto m) (Some a) = Inr nb \<and>
     s' = finishMove myColor s m nb
            (case tc of None \<Rightarrow> nh0
             | Some t \<Rightarrow> put nh0 (other (currentPlayer s))
                          (get nh0 (other (currentPlayer s)) @ [ptype t])) a"
  using assms
  by (auto simp: applyMove_def Let_def split: sum.splits)

text \<open>The two ways past the guards of \<open>executeMove\<close>.\<close>

lemma executeMove_Place:
  assumes "applied s m" "executeMove myColor now s m = Inr s'" "mtype m = Place"
  shows "\<exists>i. applyMove myColor s m (copyBoard (board s))
           (put (hands s) (currentPlayer s)
              (remove1 (pieceType m) (get (hands s) (currentPlayer s))))
           \<lparr>ptype = pieceType m, color = currentPlayer s, pid = i\<rparr> = Inr s'"
  using assms by (auto simp: applied_def executeMove_def Let_def)

lemma executeMove_Relocate:
  assumes "applied s m" "executeMove myColor now s m = Inr s'" "mtype m = Relocate"
  shows "\<exists>f p nb. mfrom m = Some f \<and> readAt (copyBoard (board s)) f = Inr (Some p)
           \<and> writeAt (copyBoard (board s)) f None = Inr nb
           \<and> applyMove myColor s m nb (hands s) p = Inr s'"
  using assms
  by (auto simp: applied_def executeMove_def Let_def split: option.splits sum.splits)

lemma executeMove_applied:
  assumes "applied s m" "executeMove myColor now s m = Inr s'"
  shows "\<exists>nb nh a. applyMove myColor s m nb nh a = Inr s' \<and> ptype a = movedKind s m"
proof (cases "mtype m")
  case Place
  from executeMove_Place[OF assms Place] Place show ?thesis
    by (auto simp: movedKind_def) (metis Piece.select_convs(1))
next
  case Relocate
  from executeMove_Relocate[OF assms Relocate] obtain f p nb where
    "mfrom m = Some f" "readAt (copyBoard (board s)) f = Inr (Some p)"
    "applyMove myColor s m nb (hands s) p = Inr s'"
    by blast
  with Relocate have "applyMove myColor s m nb (hands s) p = Inr s' \<and> ptype p = movedKind s m"
    by (simp add: movedKind_def)
  then show ?thesis by blast
qed


text \<open>A call that stops at a guard returns the state it was given.\<close>

lemma executeMove_not_applied:
  assumes "\<not> applied s m" "executeMove myColor now s m = Inr s'"
  shows "s' = s"
proof (cases "winner s")
  case (Some w)
  with assms(2) show ?thesis by (simp add: executeMove_def)
next
  case None
  show ?thesis
  proof (cases "mtype m")
    case Place
    with None assms(1) have "pieceType m \<notin> set (get (hands s) (currentPlayer s))"
      by (simp add: applied_def)
    with None Place assms(2) show ?thesis by (simp add: executeMove_def Let_def)
  next
    case Relocate
    show ?thesis
    proof (cases "mfrom m")
      case N: None
      with None Relocate assms(2) show ?thesis by (simp add: executeMove_def Let_def)
    next
      case (Some f)
      with None Relocate assms(1) have "\<not> (\<exists>p. readAt (copyBoard (board s)) f = Inr (Some p))"
        by (auto simp: applied_def)
      then have "(\<exists>e. readAt (copyBoard (board s)) f = Inl e)
          \<or> readAt (copyBoard (board s)) f = Inr None"
        by (cases "readAt (copyBoard (board s)) f") auto
      with None Relocate Some assms(2) show ?thesis
        by (auto simp: executeMove_def Let_def)
    qed
  qed
qed

section \<open>Invariants of reachable states\<close>

lemma other_other [simp]: "other (other p) = p"
  by (cases p) (simp_all add: other_def)

lemma store_wf:
  assumes "wf_row r" "0 \<le> c" "c < int GRID_SIZE"
  shows "wf_row (store r c v)"
proof -
  from assms have "isIndex c" "nat c < length (elems r)"
    by (auto simp: isIndex_def wf_row_def GRID_SIZE_def)
  with assms(1) show ?thesis
    by (auto simp: store_def wf_row_def list_all_iff dest: set_update_subset_insert[THEN subsetD])
qed

lemma writeAt_wf:
  assumes "writeAt b p v = Inr nb" "wf_board b" "inGrid p"
  shows "wf_board nb"
proof -
  from writeAt_Inr[OF assms(1)]
  have nb: "nb = b[nat (row p) := store (b ! nat (row p)) (col p) v]" and ok: "rowOk b p"
    by simp_all
  from rowOk_nat[OF ok] assms(2) have "wf_row (b ! nat (row p))"
    by (simp add: wf_board_def list_all_length)
  with assms(3) have "wf_row (store (b ! nat (row p)) (col p) v)"
    by (intro store_wf) (simp_all add: inGrid_def)
  with assms(2) rowOk_nat[OF ok] show ?thesis unfolding nb
    by (auto simp: wf_board_def list_all_length nth_list_update)
qed

lemma look_wf_Some:
  assumes "wf_row r" "look r c = Some q"
  shows "0 \<le> c \<and> c < int GRID_SIZE"
proof -
  from assms have "isIndex c \<and> nat c < length (elems r)"
    by (auto simp: look_def wf_row_def split: if_splits)
  with assms(1) show ?thesis by (auto simp: isIndex_def wf_row_def)
qed

lemma readAt_wf_inGrid:
  assumes "wf_board b" "readAt b p = Inr (Some q)"
  shows "inGrid p"
proof -
  from assms(2) have ok: "rowOk b p" and l: "look (b ! nat (row p)) (col p) = Some q"
    by (auto simp: readAt_def split: if_splits)
  from rowOk_nat[OF ok] assms(1) have "wf_row (b ! nat (row p))"
    by (simp add: wf_board_def list_all_length)
  from look_wf_Some[OF this l] ok assms(1) show ?thesis
    by (simp add: inGrid_def rowOk_def wf_board_def)
qed

lemma executeMove_wf:
  assumes "executeMove myColor now s m = Inr s'" "wf_board (board s)" "inGrid (mto m)"
  shows "wf_board (board s')"
proof (cases "applied s m")
  case False
  from executeMove_not_applied[OF False assms(1)] assms(2) show ?thesis by simp
next
  case True
  note cp = copyBoard_wf[OF assms(2)]
  show ?thesis
  proof (cases "mtype m")
    case Place
    from executeMove_Place[OF True assms(1) Place] obtain i nh where
      "applyMove myColor s m (board s) nh \<lparr>ptype = pieceType m, color = currentPlayer s, pid = i\<rparr> = Inr s'"
      unfolding cp by blast
    from applyMove_Inr[OF this] obtain nb where
      "writeAt (board s) (mto m) (Some \<lparr>ptype = pieceType m, color = currentPlayer s, pid = i\<rparr>) = Inr nb"
      "board s' = nb" by (auto simp: finishMove_fields)
    with writeAt_wf assms(2,3) show ?thesis by blast
  next
    case Relocate
    from executeMove_Relocate[OF True assms(1) Relocate] obtain f p nb0 where
      rd: "readAt (board s) f = Inr (Some p)"
      and w0: "writeAt (board s) f None = Inr nb0"
      and am: "applyMove myColor s m nb0 (hands s) p = Inr s'" unfolding cp by blast
    from applyMove_Inr[OF am] obtain nb where
      "writeAt nb0 (mto m) (Some p) = Inr nb" "board s' = nb" by (auto simp: finishMove_fields)
    with writeAt_wf[OF w0 assms(2) readAt_wf_inGrid[OF assms(2) rd]] writeAt_wf assms(3)
    show ?thesis by blast
  qed
qed

lemma executeMove_length:
  assumes "executeMove myColor now s m = Inr s'"
  shows "length (board s') = length (board s)"
proof (cases "applied s m")
  case False
  from executeMove_not_applied[OF False assms] show ?thesis by simp
next
  case True
  show ?thesis
  proof (cases "mtype m")
    case Place
    from executeMove_Place[OF True assms Place] obtain i nh where
      "applyMove myColor s m (copyBoard (board s)) nh
         \<lparr>ptype = pieceType m, color = currentPlayer s, pid = i\<rparr> = Inr s'"
      by blast
    from applyMove_Inr[OF this] obtain nb a where
      "writeAt (copyBoard (board s)) (mto m) a = Inr nb" "board s' = nb"
      by (auto simp: finishMove_fields)
    with length_writeAt show ?thesis by fastforce
  next
    case Relocate
    from executeMove_Relocate[OF True assms Relocate] obtain f p nb0 where
      w0: "writeAt (copyBoard (board s)) f None = Inr nb0"
      and am: "applyMove myColor s m nb0 (hands s) p = Inr s'" by blast
    from applyMove_Inr[OF am] obtain nb where
      "writeAt nb0 (mto m) (Some p) = Inr nb" "board s' = nb" by (auto simp: finishMove_fields)
    with length_writeAt[OF w0] length_writeAt show ?thesis by fastforce
  qed
qed

text \<open>
  While the game has no winner, the player who is not to move, the one who moved last,
  has no line.
\<close>

lemma executeMove_no_line:
  assumes "executeMove myColor now s m = Inr s'"
    and "winner s = None \<longrightarrow> checkWin (board s) (other (currentPlayer s)) = None"
  shows "winner s' = None \<longrightarrow> checkWin (board s') (other (currentPlayer s')) = None"
proof (cases "applied s m")
  case False
  from executeMove_not_applied[OF False assms(1)] assms(2) show ?thesis by simp
next
  case True
  from executeMove_applied[OF True assms(1)] obtain nb nh a where
    "applyMove myColor s m nb nh a = Inr s'" by blast
  from applyMove_Inr[OF this] obtain nb' nh' where "s' = finishMove myColor s m nb' nh' a"
    by blast
  from finishMove_counts[OF this] show ?thesis
    by (cases "checkWin (board s') (currentPlayer s) = None") auto
qed

lemma executeMove_dirs_unit:
  assumes "executeMove myColor now s m = Inr s'"
    and "\<bar>white (pawnDirections s)\<bar> = 1 \<and> \<bar>black (pawnDirections s)\<bar> = 1"
  shows "\<bar>white (pawnDirections s')\<bar> = 1 \<and> \<bar>black (pawnDirections s')\<bar> = 1"
proof (cases "applied s m")
  case False
  from executeMove_not_applied[OF False assms(1)] assms(2) show ?thesis by simp
next
  case True
  from executeMove_applied[OF True assms(1)] obtain nb nh a where
    "applyMove myColor s m nb nh a = Inr s'" by blast
  from applyMove_Inr[OF this] obtain nb' nh' where "s' = finishMove myColor s m nb' nh' a"
    by blast
  with assms(2) show ?thesis
    by (cases "currentPlayer s") (auto simp: finishMove_dirs put_def)
qed

lemma executeMove_counts_below:
  assumes "executeMove myColor now s m = Inr s'"
    and "winner s = None \<longrightarrow> (\<forall>k. countOf s k < 3)"
  shows "winner s' = None \<longrightarrow> (\<forall>k. countOf s' k < 3)"
proof (cases "applied s m")
  case False
  from executeMove_not_applied[OF False assms(1)] assms(2) show ?thesis by simp
next
  case True
  then have w: "winner s = None" by (simp add: applied_def)
  from executeMove_applied[OF True assms(1)] obtain nb nh a where
    "applyMove myColor s m nb nh a = Inr s'" by blast
  from applyMove_Inr[OF this] obtain nb' nh' where "s' = finishMove myColor s m nb' nh' a"
    by blast
  from finishMove_counts[OF this]
  have c: "checkWin (board s') (currentPlayer s) = None \<longrightarrow>
             positionCounts s' = (positionCounts s)(keyOf s' \<mapsto> countOf s (keyOf s') + 1)
           \<and> winner s' = (if 3 \<le> countOf s (keyOf s') + 1 then Some Draw else None)"
    and v: "checkWin (board s') (currentPlayer s) \<noteq> None \<longrightarrow> winner s' = Some (Won (currentPlayer s))"
    by blast+
  show ?thesis
  proof (intro impI allI)
    fix k assume n: "winner s' = None"
    with v have nl: "checkWin (board s') (currentPlayer s) = None" by auto
    with c n have pc: "positionCounts s' = (positionCounts s)(keyOf s' \<mapsto> countOf s (keyOf s') + 1)"
      and lt: "countOf s (keyOf s') + 1 < 3" by (auto split: if_splits)
    from assms(2) w have "countOf s k < 3" by simp
    with pc lt show "countOf s' k < 3" by (simp add: countOf_def)
  qed
qed

lemma wf_createEmptyBoard: "wf_board createEmptyBoard"
  by (simp add: wf_board_def createEmptyBoard_def wf_row_def arrayOf_def list_all_iff)

lemma look_empty_row: "look (arrayOf (replicate n None)) c = None"
  by (simp add: look_arrayOf)

lemma cell_createEmptyBoard: "i < GRID_SIZE \<Longrightarrow> cell createEmptyBoard i j = None"
  by (simp add: cell_def createEmptyBoard_def look_empty_row)

lemma checkWin_createEmptyBoard: "checkWin createEmptyBoard p = None"
proof -
  have "checkWin createEmptyBoard White = None" "checkWin createEmptyBoard Black = None"
    by code_simp+
  then show ?thesis by (cases p) simp_all
qed

lemma reset_invariants:
  "wf_board (board (resetGame mode diff firstPlayer))"
  "\<bar>white (pawnDirections (resetGame mode diff firstPlayer))\<bar> = 1
     \<and> \<bar>black (pawnDirections (resetGame mode diff firstPlayer))\<bar> = 1"
  "\<forall>k. countOf (resetGame mode diff firstPlayer) k < 3"
  "checkWin (board (resetGame mode diff firstPlayer)) p = None"
  by (simp_all add: resetGame_def Let_def wf_createEmptyBoard countOf_def
        checkWin_createEmptyBoard)

lemma reachable_invariants:
  assumes "reachable s"
  shows "length (board s) = GRID_SIZE
       \<and> \<bar>white (pawnDirections s)\<bar> = 1 \<and> \<bar>black (pawnDirections s)\<bar> = 1
       \<and> (winner s = None \<longrightarrow> (\<forall>k. countOf s k < 3))
       \<and> (winner s = None \<longrightarrow> checkWin (board s) (other (currentPlayer s)) = None)"
  using assms
proof (induction rule: reachable.induct)
  case (reset mode diff firstPlayer)
  show ?case using reset_invariants[of mode diff firstPlayer]
    by (simp add: wf_board_def)
next
  case (step s myColor now m s')
  from executeMove_length[OF step.hyps(2)] executeMove_dirs_unit[OF step.hyps(2)]
    executeMove_counts_below[OF step.hyps(2)] executeMove_no_line[OF step.hyps(2)] step.IH
  show ?case by simp
next
  case (left s)
  then show ?case by (simp add: countOf_def)
qed

lemma played_reachable: "played s \<Longrightarrow> reachable s"
  by (induction rule: played.induct) (auto intro: reachable.intros)

lemma played_wf: "played s \<Longrightarrow> wf_board (board s)"
proof (induction rule: played.induct)
  case (reset mode diff firstPlayer)
  show ?case by (rule reset_invariants)
next
  case (step s m myColor now s')
  from step.hyps(2) have "inGrid (mto m)" by (simp add: gridMove_def)
  with executeMove_wf[OF step.hyps(3) step.IH] show ?case .
next
  case (left s)
  then show ?case by simp
qed

text \<open>What an accepted pawn move says about the rows.\<close>

lemma isValidMove_pawn:
  assumes "ptype p = PAWN" "isValidMove s p f t = Some (Inr v)" "valid v"
  shows "row t - row f = get (pawnDirections s) (color p)"
proof -
  from assms obtain tp where "pawnMove (pawnDirections s) p tp f t = v"
    by (auto simp: isValidMove_def pieceMove_def invalid_def split: if_splits sum.splits)
  moreover have "(if color p = White then white (pawnDirections s) else black (pawnDirections s))
       = get (pawnDirections s) (color p)"
    by (cases "color p") (simp_all add: get_def)
  ultimately show ?thesis using assms(3)
    by (auto simp: pawnMove_def Let_def invalid_def ok_def split: if_splits)
qed


text \<open>Which pawn moves the validator accepts.\<close>

lemma isValidMove_pawn_iff:
  assumes "ptype q = PAWN" "length (board t) = GRID_SIZE"
  shows "\<exists>v. isValidMove t q f dst = Some (Inr v)
           \<and> (valid v \<longleftrightarrow>
                inGrid dst \<and> row dst - row f = get (pawnDirections t) (color q)
              \<and> (col dst = col f \<and> readAt (board t) dst = Inr None
                 \<or> \<bar>col dst - col f\<bar> = 1
                   \<and> (\<exists>x. readAt (board t) dst = Inr (Some x) \<and> color x \<noteq> color q)))"
proof (cases "inGrid dst")
  case False
  then show ?thesis by (auto simp: isValidMove_def inGrid_def invalid_def)
next
  case True
  with assms(2) have "rowOk (board t) dst" by (simp add: rowOk_def inGrid_def)
  then obtain tp where tp: "readAt (board t) dst = Inr tp" by (simp add: readAt_def)
  have d: "(if color q = White then white (pawnDirections t) else black (pawnDirections t))
       = get (pawnDirections t) (color q)"
    by (cases "color q") (simp_all add: get_def)
  show ?thesis
  proof (cases "case tp of None \<Rightarrow> False | Some x \<Rightarrow> color x = color q")
    case own: True
    with True tp show ?thesis
      by (auto simp: isValidMove_def inGrid_def invalid_def split: option.splits)
  next
    case other: False
    with True tp assms(1)
    have "isValidMove t q f dst = Some (Inr (pawnMove (pawnDirections t) q tp f dst))"
      by (simp add: isValidMove_def inGrid_def pieceMove_def)
    moreover have "valid (pawnMove (pawnDirections t) q tp f dst) \<longleftrightarrow>
        row dst - row f = get (pawnDirections t) (color q)
      \<and> (col dst = col f \<and> tp = None
         \<or> \<bar>col dst - col f\<bar> = 1 \<and> (\<exists>x. tp = Some x \<and> color x \<noteq> color q))"
      unfolding pawnMove_def Let_def d
      by (cases tp) (auto simp: invalid_def ok_def)
    ultimately show ?thesis using True tp by simp
  qed
qed

section \<open>Capture transfer\<close>

text \<open>
  C1. When an applied move lands on an occupied square, the kind of the piece standing
  there is appended to the hand of the mover's opponent, and the mover's own hand is what
  the move itself makes of it: unchanged by a relocation, one instance of the placed kind
  shorter after a placement. The statement holds whoever owns the displaced piece, so in
  particular when it is an opposing one. A relocation whose origin is its destination
  finds the square empty when it looks (the origin is cleared first) and captures nothing.
\<close>

theorem capture_feeds_victims_hand:
  assumes "wf_board (board s)"
    and "applied s m"
    and "executeMove myColor now s m = Inr s'"
    and "mtype m = Relocate \<longrightarrow> mfrom m \<noteq> Some (mto m)"
    and "readAt (board s) (mto m) = Inr (Some t)"
  shows "get (hands s') (other (currentPlayer s))
           = get (hands s) (other (currentPlayer s)) @ [ptype t]
       \<and> get (hands s') (currentPlayer s)
           = (if mtype m = Place
              then remove1 (pieceType m) (get (hands s) (currentPlayer s))
              else get (hands s) (currentPlayer s))"
proof (cases "mtype m")
  case Place
  from executeMove_Place[OF assms(2,3) Place] obtain i where
    "applyMove myColor s m (board s)
       (put (hands s) (currentPlayer s) (remove1 (pieceType m) (get (hands s) (currentPlayer s))))
       \<lparr>ptype = pieceType m, color = currentPlayer s, pid = i\<rparr> = Inr s'"
    unfolding copyBoard_wf[OF assms(1)] by blast
  from applyMove_Inr[OF this] assms(5) Place show ?thesis
    by (auto simp: finishMove_fields get_put other_neq)
next
  case Relocate
  from executeMove_Relocate[OF assms(2,3) Relocate] obtain f p nb where
    f: "mfrom m = Some f" and wr: "writeAt (board s) f None = Inr nb"
    and am: "applyMove myColor s m nb (hands s) p = Inr s'"
    unfolding copyBoard_wf[OF assms(1)] by blast
  from assms(4) Relocate f have "f \<noteq> mto m" by auto
  from readAt_writeAt_other[OF wr this] assms(5)
  have "readAt nb (mto m) = Inr (Some t)" by simp
  with applyMove_Inr[OF am] Relocate show ?thesis
    by (auto simp: finishMove_fields get_put other_neq)
qed

theorem capture_feeds_victims_hand_witness:
  "get (hands (projr (executeMove None 0 rookFacesBishop (clickMove ROOK 0 0 0 3)))) Black
     = [PAWN, ROOK, KNIGHT, BISHOP]
   \<and> get (hands (projr (executeMove None 0 rookFacesBishop (clickMove ROOK 0 0 0 3)))) White
     = [PAWN, KNIGHT, BISHOP]"
proof -
  let ?m = "clickMove ROOK 0 0 0 3"
  let ?r = "executeMove None 0 rookFacesBishop ?m"
  have "\<not> isl ?r" by code_simp
  then have ex: "?r = Inr (projr ?r)" by (rule not_isl_projr)
  have wf: "wf_board (board rookFacesBishop)" by code_simp
  have ap: "applied rookFacesBishop ?m" by code_simp
  have rel: "mtype ?m = Relocate \<longrightarrow> mfrom ?m \<noteq> Some (mto ?m)" by code_simp
  have tg: "readAt (board rookFacesBishop) (mto ?m)
              = Inr (Some \<lparr>ptype = BISHOP, color = Black, pid = ''black-B-2''\<rparr>)"
    by code_simp
  have facts: "currentPlayer rookFacesBishop = White" "mtype ?m = Relocate"
    "get (hands rookFacesBishop) Black = [PAWN, ROOK, KNIGHT]"
    "get (hands rookFacesBishop) White = [PAWN, KNIGHT, BISHOP]"
    by code_simp+
  from capture_feeds_victims_hand[OF wf ap ex rel tg] show ?thesis
    by (simp add: facts other_def)
qed

section \<open>Repetition\<close>

text \<open>
  C2. After an applied move that gives the mover no line, the turn has passed, the count
  of the key of the resulting configuration (board, hands, player to move, pawn
  directions) is one more than it was (an absent key counting as 0), no other count
  changes, and the game is drawn exactly when the new count is at least 3: not while it
  is below 3, and exactly when it is 3 where the old count was below 3, as it is in every
  reachable state. After a move that gives the mover a line the counts are the old ones
  and the mover has won.
\<close>

theorem repetition_count:
  assumes "wf_board (board s)"
    and "applied s m"
    and "executeMove myColor now s m = Inr s'"
  shows "(checkWin (board s') (currentPlayer s) = None \<longrightarrow>
            currentPlayer s' = other (currentPlayer s)
          \<and> positionCounts s' = (positionCounts s)(keyOf s' \<mapsto> countOf s (keyOf s') + 1)
          \<and> (winner s' = Some Draw \<longleftrightarrow> 3 \<le> countOf s (keyOf s') + 1)
          \<and> (countOf s (keyOf s') + 1 < 3 \<longrightarrow> winner s' = None)
          \<and> (countOf s (keyOf s') < 3 \<or> reachable s \<longrightarrow>
                (winner s' = Some Draw \<longleftrightarrow> countOf s (keyOf s') + 1 = 3)))
       \<and> (checkWin (board s') (currentPlayer s) \<noteq> None \<longrightarrow>
            positionCounts s' = positionCounts s \<and> winner s' = Some (Won (currentPlayer s)))"
proof -
  from executeMove_applied[OF assms(2,3)] obtain nb nh a where
    "applyMove myColor s m nb nh a = Inr s'" by blast
  from applyMove_Inr[OF this] obtain nb' nh' where "s' = finishMove myColor s m nb' nh' a"
    by blast
  note c = finishMove_counts[OF this]
  from assms(2) have "winner s = None" by (simp add: applied_def)
  with reachable_invariants[of s] have "countOf s (keyOf s') < 3" if "reachable s"
    using that by blast
  with c show ?thesis by auto
qed

theorem repetition_count_witness:
  "countOf knightsReturn
     ''whiteN,-,-,-,-,-,-,-,-,-,-,-,-,-,-,blackN|BPR|BPR|white|-1,1'' = 2
   \<and> winner knightsReturn = None
   \<and> positionCounts (projr (executeMove None 0 knightsReturn (clickMove KNIGHT 2 1 3 3)))
       ''whiteN,-,-,-,-,-,-,-,-,-,-,-,-,-,-,blackN|BPR|BPR|white|-1,1'' = Some 3
   \<and> winner (projr (executeMove None 0 knightsReturn (clickMove KNIGHT 2 1 3 3))) = Some Draw"
proof -
  let ?m = "clickMove KNIGHT 2 1 3 3"
  let ?r = "executeMove None 0 knightsReturn ?m"
  let ?k = "''whiteN,-,-,-,-,-,-,-,-,-,-,-,-,-,-,blackN|BPR|BPR|white|-1,1''"
  have "\<not> isl ?r" by code_simp
  then have ex: "?r = Inr (projr ?r)" by (rule not_isl_projr)
  have wf: "wf_board (board knightsReturn)" by code_simp
  have ap: "applied knightsReturn ?m" by code_simp
  have nowin: "checkWin (board (projr ?r)) (currentPlayer knightsReturn) = None" by code_simp
  have key: "keyOf (projr ?r) = ?k" by code_simp
  have cnt: "countOf knightsReturn ?k = 2" by code_simp
  have w0: "winner knightsReturn = None" by code_simp
  from repetition_count[OF wf ap ex] nowin
  have "positionCounts (projr ?r) = (positionCounts knightsReturn)(?k \<mapsto> 2 + 1)"
    and "winner (projr ?r) = Some Draw \<longleftrightarrow> 3 \<le> (2::nat) + 1"
    unfolding key cnt by blast+
  then show ?thesis using cnt w0 by simp
qed

section \<open>Pawn directions\<close>

text \<open>
  C3, as the code has it. The claim that a placement leaves the directions unchanged fails:
  in the starting position White's direction is \<open>-1\<close>, and White placing its pawn on
  row 0 makes it \<open>1\<close>.
\<close>

theorem placement_keeps_directions_counterexample:
  "pawnDirections start = \<lparr>white = - 1, black = 1\<rparr>
   \<and> map_sum id pawnDirections (executeMove None 0 start (placeMove PAWN 0 0))
       = Inr \<lparr>white = 1, black = 1\<rparr>"
  by code_simp

text \<open>
  C3, amended. An applied move never changes the direction of the mover's opponent. It
  sets the mover's direction to \<open>1\<close> when the piece that lands, placed or relocated, is
  a pawn and the destination is on row 0, to \<open>-1\<close> when it is a pawn and the destination
  is on row \<open>GRID_SIZE - 1\<close>, and leaves it as it is otherwise. When the move relocates a
  pawn of the mover's, the validator accepts it and the mover's direction is \<open>1\<close> or
  \<open>-1\<close> (as it is in every reachable state), arriving on either edge row is a flip of
  that direction. The direction the move leaves is the one every later pawn move of that
  color is validated against: in the state after the move, and in every state that has
  this direction for the color, the validator returns for each of the color's pawns, from
  any square to any square, and accepts exactly the steps onto the grid that advance one
  row in that direction, straight onto an empty square or diagonally onto an opposing
  piece.
\<close>

theorem pawn_direction_update:
  assumes "wf_board (board s)"
    and "applied s m"
    and "executeMove myColor now s m = Inr s'"
  shows "get (pawnDirections s') (other (currentPlayer s))
           = get (pawnDirections s) (other (currentPlayer s))
       \<and> get (pawnDirections s') (currentPlayer s)
           = (if movedKind s m = PAWN \<and> row (mto m) = 0 then 1
              else if movedKind s m = PAWN \<and> row (mto m) = int GRID_SIZE - 1 then - 1
              else get (pawnDirections s) (currentPlayer s))
       \<and> (\<forall>f p v. mtype m = Relocate \<and> mfrom m = Some f
             \<and> readAt (board s) f = Inr (Some p)
             \<and> ptype p = PAWN \<and> color p = currentPlayer s
             \<and> isValidMove s p f (mto m) = Some (Inr v) \<and> valid v
             \<and> \<bar>get (pawnDirections s) (currentPlayer s)\<bar> = 1
             \<and> (row (mto m) = 0 \<or> row (mto m) = int GRID_SIZE - 1)
           \<longrightarrow> get (pawnDirections s') (currentPlayer s)
                 = - get (pawnDirections s) (currentPlayer s))
       \<and> (reachable s \<longrightarrow> \<bar>get (pawnDirections s) (currentPlayer s)\<bar> = 1)
       \<and> length (board s') = GRID_SIZE
       \<and> (\<forall>t q f dst. ptype q = PAWN \<and> color q = currentPlayer s
             \<and> length (board t) = GRID_SIZE
             \<and> get (pawnDirections t) (currentPlayer s) = get (pawnDirections s') (currentPlayer s)
           \<longrightarrow> (\<exists>v. isValidMove t q f dst = Some (Inr v)
                  \<and> (valid v \<longleftrightarrow>
                       inGrid dst
                     \<and> row dst - row f = get (pawnDirections s') (currentPlayer s)
                     \<and> (col dst = col f \<and> readAt (board t) dst = Inr None
                        \<or> \<bar>col dst - col f\<bar> = 1
                          \<and> (\<exists>x. readAt (board t) dst = Inr (Some x)
                                 \<and> color x \<noteq> currentPlayer s)))))"
proof -
  note cp = copyBoard_wf[OF assms(1)]
  from executeMove_applied[OF assms(2,3)] obtain nb nh a where
    am: "applyMove myColor s m nb nh a = Inr s'" and a: "ptype a = movedKind s m" by blast
  from applyMove_Inr[OF am] obtain nb' nh' where "s' = finishMove myColor s m nb' nh' a"
    by blast
  then have d: "pawnDirections s' =
     (if movedKind s m = PAWN \<and> row (mto m) = 0 then put (pawnDirections s) (currentPlayer s) 1
      else if movedKind s m = PAWN \<and> row (mto m) = int GRID_SIZE - 1
        then put (pawnDirections s) (currentPlayer s) (- 1)
      else pawnDirections s)"
    by (simp add: finishMove_dirs a)
  have 1: "get (pawnDirections s') (other (currentPlayer s))
             = get (pawnDirections s) (other (currentPlayer s))"
    by (simp add: d get_put other_neq)
  have 2: "get (pawnDirections s') (currentPlayer s)
           = (if movedKind s m = PAWN \<and> row (mto m) = 0 then 1
              else if movedKind s m = PAWN \<and> row (mto m) = int GRID_SIZE - 1 then - 1
              else get (pawnDirections s) (currentPlayer s))"
    by (simp add: d get_put)
  have 3: "get (pawnDirections s') (currentPlayer s) = - get (pawnDirections s) (currentPlayer s)"
    if h: "mtype m = Relocate" "mfrom m = Some f" "readAt (board s) f = Inr (Some p)"
      "ptype p = PAWN" "color p = currentPlayer s"
      "isValidMove s p f (mto m) = Some (Inr v)" "valid v"
      "\<bar>get (pawnDirections s) (currentPlayer s)\<bar> = 1"
      "row (mto m) = 0 \<or> row (mto m) = int GRID_SIZE - 1"
    for f p v
  proof -
    from readAt_Some_inside[OF h(3)] assms(1)
    have rf: "0 \<le> row f" "row f < int GRID_SIZE"
      by (auto simp: rowOk_def wf_board_def)
    have mk: "movedKind s m = PAWN" using h(1-4) by (simp add: movedKind_def cp)
    from isValidMove_pawn[OF h(4,6,7)] h(5)
    have "row (mto m) - row f = get (pawnDirections s) (currentPlayer s)" by simp
    with rf h(8,9) mk show ?thesis unfolding 2 by (auto simp: GRID_SIZE_def)
  qed
  have 4: "\<bar>get (pawnDirections s) (currentPlayer s)\<bar> = 1" if "reachable s"
    using reachable_invariants[OF that] by (cases "currentPlayer s") (simp_all add: get_def)
  have 5: "length (board s') = GRID_SIZE"
    using executeMove_length[OF assms(3)] assms(1) by (simp add: wf_board_def)
  have 6: "\<exists>v. isValidMove t q f dst = Some (Inr v)
                  \<and> (valid v \<longleftrightarrow>
                       inGrid dst
                     \<and> row dst - row f = get (pawnDirections s') (currentPlayer s)
                     \<and> (col dst = col f \<and> readAt (board t) dst = Inr None
                        \<or> \<bar>col dst - col f\<bar> = 1
                          \<and> (\<exists>x. readAt (board t) dst = Inr (Some x)
                                 \<and> color x \<noteq> currentPlayer s)))"
    if h: "ptype q = PAWN" "color q = currentPlayer s" "length (board t) = GRID_SIZE"
      "get (pawnDirections t) (currentPlayer s) = get (pawnDirections s') (currentPlayer s)"
    for t q f dst
    using isValidMove_pawn_iff[OF h(1,3), of f dst] unfolding h(2) h(4) .
  from 1 2 3 4 5 6 show ?thesis by blast
qed

theorem pawn_direction_update_witness:
  "get (pawnDirections pawnBelowEdge) White = - 1
   \<and> get (pawnDirections (projr (executeMove None 0 pawnBelowEdge (clickMove PAWN 1 0 0 0)))) White = 1
   \<and> get (pawnDirections (projr (executeMove None 0 pawnBelowEdge (clickMove PAWN 1 0 0 0)))) Black = 1
   \<and> map_option (map_sum id valid)
        (isValidMove (projr (executeMove None 0 pawnBelowEdge (clickMove PAWN 1 0 0 0)))
           \<lparr>ptype = PAWN, color = White, pid = ''white-P-1''\<rparr> (mkPos 0 0) (mkPos 1 0))
       = Some (Inr True)
   \<and> map_option (map_sum id valid)
        (isValidMove (projr (executeMove None 0 pawnBelowEdge (clickMove PAWN 1 0 0 0)))
           \<lparr>ptype = PAWN, color = White, pid = ''white-P-1''\<rparr> (mkPos 1 0) (mkPos 0 0))
       = Some (Inr False)"
proof -
  let ?m = "clickMove PAWN 1 0 0 0"
  let ?r = "executeMove None 0 pawnBelowEdge ?m"
  let ?p = "\<lparr>ptype = PAWN, color = White, pid = ''white-P-1''\<rparr>"
  have "\<not> isl ?r" by code_simp
  then have ex: "?r = Inr (projr ?r)" by (rule not_isl_projr)
  have wf: "wf_board (board pawnBelowEdge)" by code_simp
  have ap: "applied pawnBelowEdge ?m" by code_simp
  have facts: "currentPlayer pawnBelowEdge = White" "mtype ?m = Relocate"
    "mfrom ?m = Some (mkPos 1 0)" "row (mto ?m) = 0"
    "readAt (board pawnBelowEdge) (mkPos 1 0) = Inr (Some ?p)"
    "isValidMove pawnBelowEdge ?p (mkPos 1 0) (mto ?m) = Some (Inr ok)" "valid ok"
    "get (pawnDirections pawnBelowEdge) White = - 1"
    "get (pawnDirections pawnBelowEdge) Black = 1"
    by code_simp+
  let ?hyp = "mtype ?m = Relocate \<and> mfrom ?m = Some (mkPos 1 0)
             \<and> readAt (board pawnBelowEdge) (mkPos 1 0) = Inr (Some ?p)
             \<and> ptype ?p = PAWN \<and> color ?p = White
             \<and> isValidMove pawnBelowEdge ?p (mkPos 1 0) (mto ?m) = Some (Inr ok) \<and> valid ok
             \<and> \<bar>get (pawnDirections pawnBelowEdge) White\<bar> = 1
             \<and> (row (mto ?m) = 0 \<or> row (mto ?m) = int GRID_SIZE - 1)"
  note upd = pawn_direction_update[OF wf ap ex]
  from upd
  have same: "get (pawnDirections (projr ?r)) (other White)
                = get (pawnDirections pawnBelowEdge) (other White)"
    and imp: "?hyp \<longrightarrow>
                get (pawnDirections (projr ?r)) White = - get (pawnDirections pawnBelowEdge) White"
    and len: "length (board (projr ?r)) = GRID_SIZE"
    unfolding facts(1) by blast+
  have ?hyp using facts by simp
  with imp have flip: "get (pawnDirections (projr ?r)) White
      = - get (pawnDirections pawnBelowEdge) White"
    by (rule mp)
  then have dir: "get (pawnDirections (projr ?r)) White = 1" by (simp add: facts(8))
  from upd have later: "ptype ?p = PAWN \<and> color ?p = White
         \<and> length (board (projr ?r)) = GRID_SIZE
         \<and> get (pawnDirections (projr ?r)) White = get (pawnDirections (projr ?r)) White
       \<longrightarrow> (\<exists>v. isValidMove (projr ?r) ?p f dst = Some (Inr v)
              \<and> (valid v \<longleftrightarrow>
                   inGrid dst
                 \<and> row dst - row f = get (pawnDirections (projr ?r)) White
                 \<and> (col dst = col f \<and> readAt (board (projr ?r)) dst = Inr None
                    \<or> \<bar>col dst - col f\<bar> = 1
                      \<and> (\<exists>x. readAt (board (projr ?r)) dst = Inr (Some x)
                             \<and> color x \<noteq> White))))" for f dst
    unfolding facts(1) by blast
  have sq: "readAt (board (projr ?r)) (mkPos 1 0) = Inr None"
    "readAt (board (projr ?r)) (mkPos 0 0) \<noteq> Inr None"
    by code_simp+
  from later[of "mkPos 0 0" "mkPos 1 0"] len obtain v where
    v: "isValidMove (projr ?r) ?p (mkPos 0 0) (mkPos 1 0) = Some (Inr v)"
    "valid v \<longleftrightarrow> inGrid (mkPos 1 0) \<and> row (mkPos 1 0) - row (mkPos 0 0) = 1
       \<and> (col (mkPos 1 0) = col (mkPos 0 0) \<and> readAt (board (projr ?r)) (mkPos 1 0) = Inr None
          \<or> \<bar>col (mkPos 1 0) - col (mkPos 0 0)\<bar> = 1
            \<and> (\<exists>x. readAt (board (projr ?r)) (mkPos 1 0) = Inr (Some x) \<and> color x \<noteq> White))"
    unfolding dir by auto
  from v(2) sq(1) have "valid v" by (simp add: mkPos_def inGrid_def GRID_SIZE_def)
  with v(1) have down: "map_option (map_sum id valid)
      (isValidMove (projr ?r) ?p (mkPos 0 0) (mkPos 1 0)) = Some (Inr True)" by simp
  from later[of "mkPos 1 0" "mkPos 0 0"] len obtain u where
    u: "isValidMove (projr ?r) ?p (mkPos 1 0) (mkPos 0 0) = Some (Inr u)"
    "valid u \<longleftrightarrow> inGrid (mkPos 0 0) \<and> row (mkPos 0 0) - row (mkPos 1 0) = 1
       \<and> (col (mkPos 0 0) = col (mkPos 1 0) \<and> readAt (board (projr ?r)) (mkPos 0 0) = Inr None
          \<or> \<bar>col (mkPos 0 0) - col (mkPos 1 0)\<bar> = 1
            \<and> (\<exists>x. readAt (board (projr ?r)) (mkPos 0 0) = Inr (Some x) \<and> color x \<noteq> White))"
    unfolding dir by auto
  from u(2) have "\<not> valid u" by (simp add: mkPos_def)
  with u(1) have up: "map_option (map_sum id valid)
      (isValidMove (projr ?r) ?p (mkPos 1 0) (mkPos 0 0)) = Some (Inr False)" by simp
  from same dir down up show ?thesis by (simp add: facts(8,9) other_def)
qed

section \<open>The search's private transition\<close>

text \<open>
  C10. Whenever \<open>simulateMove\<close> returns, the state it returns has the pawn directions,
  winner, winning line, position counts, history and status message of the state it was
  given (and its mode and difficulty); only the board, the hands and the player to move
  differ. So a simulated pawn move onto an edge row leaves the directions alone, where
  \<open>executeMove\<close> changes them.
\<close>

theorem simulateMove_frame:
  assumes "simulateMove s m = Inr s'"
  shows "pawnDirections s' = pawnDirections s \<and> winner s' = winner s
       \<and> winningLine s' = winningLine s \<and> positionCounts s' = positionCounts s
       \<and> history s' = history s \<and> statusMessage s' = statusMessage s
       \<and> gameMode s' = gameMode s \<and> difficulty s' = difficulty s
       \<and> s' = s\<lparr>board := board s', hands := hands s',
                 currentPlayer := other (currentPlayer s)\<rparr>"
  using assms
  by (auto simp: simulateMove_def Let_def split: MoveType.splits option.splits sum.splits)

theorem simulateMove_frame_witness:
  "pawnDirections (projr (simulateMove pawnBelowEdge (clickMove PAWN 1 0 0 0)))
     = \<lparr>white = - 1, black = 1\<rparr>
   \<and> history (projr (simulateMove pawnBelowEdge (clickMove PAWN 1 0 0 0))) = []
   \<and> pawnDirections (projr (executeMove None 0 pawnBelowEdge (clickMove PAWN 1 0 0 0)))
     = \<lparr>white = 1, black = 1\<rparr>"
proof -
  let ?m = "clickMove PAWN 1 0 0 0"
  have "\<not> isl (simulateMove pawnBelowEdge ?m)" by code_simp
  then have "simulateMove pawnBelowEdge ?m = Inr (projr (simulateMove pawnBelowEdge ?m))"
    by (rule not_isl_projr)
  from simulateMove_frame[OF this]
  have "pawnDirections (projr (simulateMove pawnBelowEdge ?m)) = pawnDirections pawnBelowEdge"
    and "history (projr (simulateMove pawnBelowEdge ?m)) = history pawnBelowEdge"
    by blast+
  moreover have "pawnDirections pawnBelowEdge = \<lparr>white = - 1, black = 1\<rparr>"
    "history pawnBelowEdge = []"
    "pawnDirections (projr (executeMove None 0 pawnBelowEdge ?m)) = \<lparr>white = 1, black = 1\<rparr>"
    by code_simp+
  ultimately show ?thesis by simp
qed

section \<open>Conservation of kinds, step by step\<close>

lemma mset_exchange:
  assumes "G' + c = G + v" "N + G = B + G'"
  shows "N + c = B + (v::'a multiset)"
proof (rule multiset_eqI)
  fix x
  from assms(1) have "count (G' + c) x = count (G + v) x" by simp
  moreover from assms(2) have "count (N + G) x = count (B + G') x" by simp
  ultimately show "count (N + c) x = count (B + v) x" by simp
qed

lemma mset_transfer:
  assumes "N + t = B + a" "H' = H + t"
  shows "N + H' = B + H + (a::'a multiset)"
proof (rule multiset_eqI)
  fix x
  from assms(1) have "count (N + t) x = count (B + a) x" by simp
  moreover from assms(2) have "count H' x = count (H + t) x" by simp
  ultimately show "count (N + H') x = count (B + H + a) x" by simp
qed

lemma mset_return:
  assumes "P + g = H + r" "g = r + k"
  shows "P + k = (H::'a multiset)"
proof (rule multiset_eqI)
  fix x
  from assms(1) have "count (P + g) x = count (H + r) x" by simp
  moreover from assms(2) have "count g x = count (r + k) x" by simp
  ultimately show "count (P + k) x = count H x" by simp
qed

lemma mset_concat_update:
  assumes "i < length xs"
  shows "mset (concat (map f (xs[i := v]))) + mset (f (xs ! i))
           = mset (concat (map f xs)) + mset (f v)"
proof -
  have "xs = take i xs @ xs ! i # drop (Suc i) xs"
    using assms by (simp add: id_take_nth_drop)
  then have a: "mset (concat (map f xs))
      = mset (concat (map f (take i xs))) + mset (f (xs ! i)) + mset (concat (map f (drop (Suc i) xs)))"
    by (metis concat.simps(2) concat_append list.simps(9) map_append mset_append union_assoc)
  have "xs[i := v] = take i xs @ v # drop (Suc i) xs"
    using assms by (simp add: upd_conv_take_nth_drop)
  then have "mset (concat (map f (xs[i := v])))
      = mset (concat (map f (take i xs))) + mset (f v) + mset (concat (map f (drop (Suc i) xs)))"
    by (metis concat.simps(2) concat_append list.simps(9) map_append mset_append union_assoc)
  with a show ?thesis by simp
qed

lemma kinds_fuse:
  "concat (map cellKinds (concat (map g xs))) = concat (map (\<lambda>x. concat (map cellKinds (g x))) xs)"
  by (induction xs) simp_all

lemma boardKinds_rows:
  "boardKinds b = mset (concat (map (\<lambda>r. concat (map cellKinds (live r))) b))"
  by (simp add: boardKinds_def flat_def kinds_fuse)

lemma rowKinds_store_index:
  assumes "isIndex c"
  shows "mset (concat (map cellKinds (live (store r c v)))) + mset (cellKinds (look r c))
           = mset (concat (map cellKinds (live r))) + mset (cellKinds v)"
proof (cases "nat c < length (elems r)")
  case True
  let ?g = "\<lambda>x. case x of Hole \<Rightarrow> [] | Val v \<Rightarrow> [v]"
  let ?f = "\<lambda>x. concat (map cellKinds (?g x))"
  have f: "?f x = cellKinds (slotValue x)" for x
    by (cases x) (simp_all add: slotValue_def cellKinds_def)
  have "mset (concat (map ?f ((elems r)[nat c := Val v]))) + mset (?f (elems r ! nat c))
          = mset (concat (map ?f (elems r))) + mset (?f (Val v))"
    using True by (rule mset_concat_update)
  with True assms show ?thesis
    by (simp add: live_def store_def look_def kinds_fuse f slotValue_def)
next
  case False
  have "concat (map (\<lambda>x. case x of Hole \<Rightarrow> [] | Val v \<Rightarrow> [v]) (replicate k Hole)) = []" for k
    by (induction k) simp_all
  with False assms show ?thesis
    by (simp add: live_def store_def look_def cellKinds_def)
qed

lemma live_store_named: "\<not> isIndex c \<Longrightarrow> live (store r c v) = live r"
  by (simp add: live_def store_def)

lemma rowKinds_copyRow:
  "concat (map cellKinds (live (copyRow r))) = concat (map cellKinds (live r))"
proof -
  have "concat (map cellKinds (concat (map (\<lambda>x. case x of Hole \<Rightarrow> [] | Val v \<Rightarrow> [v])
            (map (\<lambda>x. Val (slotValue x)) xs))))
      = concat (map cellKinds (concat (map (\<lambda>x. case x of Hole \<Rightarrow> [] | Val v \<Rightarrow> [v]) xs)))" for xs
    by (induction xs) (auto simp: slotValue_def cellKinds_def split: Slot.splits)
  then show ?thesis by (simp add: live_def copyRow_def)
qed

lemma boardKinds_copyBoard: "boardKinds (copyBoard b) = boardKinds b"
  by (simp add: boardKinds_rows copyBoard_def comp_def rowKinds_copyRow)

lemma writeAt_kinds:
  assumes "writeAt b p v = Inr nb" "isIndex (col p)"
  shows "\<exists>old. readAt b p = Inr old
           \<and> boardKinds nb + mset (cellKinds old) = boardKinds b + mset (cellKinds v)"
proof -
  let ?i = "nat (row p)"
  from writeAt_Inr[OF assms(1)] have ok: "rowOk b p"
    and nb: "nb = b[?i := store (b ! ?i) (col p) v]" by simp_all
  from rowOk_nat[OF ok] have i: "?i < length b" .
  have rd: "readAt b p = Inr (look (b ! ?i) (col p))" using ok by (simp add: readAt_def)
  let ?K = "\<lambda>r. concat (map cellKinds (live r))"
  have "mset (?K (store (b ! ?i) (col p) v)) + mset (cellKinds (look (b ! ?i) (col p)))
          = mset (?K (b ! ?i)) + mset (cellKinds v)"
    by (rule rowKinds_store_index[OF assms(2)])
  moreover have "boardKinds nb + mset (?K (b ! ?i))
          = boardKinds b + mset (?K (store (b ! ?i) (col p) v))"
    unfolding boardKinds_rows nb by (rule mset_concat_update[OF i])
  ultimately have "boardKinds nb + mset (cellKinds (look (b ! ?i) (col p)))
      = boardKinds b + mset (cellKinds v)"
    by (rule mset_exchange)
  with rd show ?thesis by blast
qed

lemma writeAt_kinds_named:
  assumes "writeAt b p v = Inr nb" "\<not> isIndex (col p)"
  shows "boardKinds nb = boardKinds b"
proof -
  let ?i = "nat (row p)"
  from writeAt_Inr[OF assms(1)] have ok: "rowOk b p"
    and nb: "nb = b[?i := store (b ! ?i) (col p) v]" by simp_all
  have "map live nb = map live b"
    unfolding nb using rowOk_nat[OF ok]
    by (auto simp: list_eq_iff_nth_eq nth_list_update live_store_named[OF assms(2)])
  then show ?thesis by (simp add: boardKinds_def flat_def)
qed

text \<open>Rows that carry no property besides their elements, as every copy is.\<close>

lemma copyBoard_plain: "list_all (\<lambda>r. named r = []) (copyBoard b)"
  by (simp add: copyBoard_def list_all_iff copyRow_def)

lemma readAt_plain:
  assumes "list_all (\<lambda>r. named r = []) b" "\<not> isIndex (col p)" "readAt b p = Inr x"
  shows "x = None"
proof -
  from assms(3) have ok: "rowOk b p" and x: "x = look (b ! nat (row p)) (col p)"
    by (auto simp: readAt_def split: if_splits)
  from rowOk_nat[OF ok] assms(1) have "named (b ! nat (row p)) = []"
    by (simp add: list_all_length)
  with assms(2) x show ?thesis by (simp add: look_def)
qed

lemma writeAt_plain:
  assumes "writeAt b p v = Inr nb" "isIndex (col p)" "list_all (\<lambda>r. named r = []) b"
  shows "list_all (\<lambda>r. named r = []) nb"
proof -
  from writeAt_Inr[OF assms(1)] have ok: "rowOk b p"
    and nb: "nb = b[nat (row p) := store (b ! nat (row p)) (col p) v]" by simp_all
  from rowOk_nat[OF ok] assms(3) have "named (b ! nat (row p)) = []"
    by (simp add: list_all_length)
  with assms(2) have "named (store (b ! nat (row p)) (col p) v) = []"
    by (simp add: store_def)
  with assms(3) rowOk_nat[OF ok] show ?thesis unfolding nb
    by (auto simp: list_all_length nth_list_update)
qed

lemma handKinds_put:
  "handKinds (put h p v) + mset (get h p) = handKinds h + mset v"
  by (cases p) (simp_all add: handKinds_def put_def get_def)

lemma applyMove_kinds:
  assumes "applyMove myColor s m nb0 nh0 a = Inr s'" "isIndex (col (mto m))"
  shows "allKinds s' = boardKinds nb0 + handKinds nh0 + {#ptype a#}"
proof -
  from applyMove_Inr[OF assms(1)] obtain tc nb where
    rd: "readAt nb0 (mto m) = Inr tc" and wr: "writeAt nb0 (mto m) (Some a) = Inr nb"
    and s': "s' = finishMove myColor s m nb
            (case tc of None \<Rightarrow> nh0
             | Some t \<Rightarrow> put nh0 (other (currentPlayer s))
                          (get nh0 (other (currentPlayer s)) @ [ptype t])) a"
    by blast
  from writeAt_kinds[OF wr assms(2)] rd
  have b: "boardKinds nb + mset (cellKinds tc) = boardKinds nb0 + {#ptype a#}"
    by (simp add: cellKinds_def)
  have h: "handKinds (hands s') = handKinds nh0 + mset (cellKinds tc)"
  proof (cases tc)
    case None
    then show ?thesis by (simp add: s' finishMove_fields cellKinds_def)
  next
    case (Some t)
    let ?o = "other (currentPlayer s)"
    have "handKinds (put nh0 ?o (get nh0 ?o @ [ptype t])) + mset (get nh0 ?o)
            = handKinds nh0 + mset (get nh0 ?o @ [ptype t])"
      by (rule handKinds_put)
    then have "handKinds (put nh0 ?o (get nh0 ?o @ [ptype t])) = handKinds nh0 + {#ptype t#}"
      by simp
    with Some show ?thesis by (simp add: s' finishMove_fields cellKinds_def)
  qed
  have "allKinds s' = boardKinds nb + handKinds (hands s')"
    by (simp add: allKinds_def s' finishMove_fields)
  with mset_transfer[OF b h] show ?thesis by simp
qed

lemma applyMove_kinds_named:
  assumes "applyMove myColor s m nb0 nh0 a = Inr s'" "\<not> isIndex (col (mto m))"
    and "list_all (\<lambda>r. named r = []) nb0"
  shows "allKinds s' = boardKinds nb0 + handKinds nh0"
proof -
  from applyMove_Inr[OF assms(1)] obtain tc nb where
    rd: "readAt nb0 (mto m) = Inr tc" and wr: "writeAt nb0 (mto m) (Some a) = Inr nb"
    and s': "s' = finishMove myColor s m nb
            (case tc of None \<Rightarrow> nh0
             | Some t \<Rightarrow> put nh0 (other (currentPlayer s))
                          (get nh0 (other (currentPlayer s)) @ [ptype t])) a"
    by blast
  from readAt_plain[OF assms(3,2) rd] have "tc = None" .
  with writeAt_kinds_named[OF wr assms(2)] show ?thesis
    by (simp add: allKinds_def s' finishMove_fields)
qed

text \<open>
  A call of \<open>executeMove\<close> keeps the kinds when the column of the destination is an
  index of the row; when it is not, the piece that moves ends in a property of the row
  and its kind is gone from the elements.
\<close>

lemma executeMove_kinds_cases:
  assumes "executeMove myColor now s m = Inr s'"
  shows "(isIndex (col (mto m)) \<or> \<not> applied s m \<longrightarrow> allKinds s' = allKinds s)
       \<and> (\<not> isIndex (col (mto m)) \<and> applied s m \<longrightarrow>
            allKinds s' + {#movedKind s m#} = allKinds s)"
proof (cases "applied s m")
  case False
  from executeMove_not_applied[OF False assms] False show ?thesis by simp
next
  case True
  show ?thesis
  proof (cases "mtype m")
    case Place
    let ?p = "currentPlayer s"
    let ?nh = "put (hands s) ?p (remove1 (pieceType m) (get (hands s) ?p))"
    from True Place have k: "pieceType m \<in> set (get (hands s) ?p)"
      by (simp add: applied_def)
    from Place have mk: "movedKind s m = pieceType m" by (simp add: movedKind_def)
    from executeMove_Place[OF True assms Place] obtain i where
      am: "applyMove myColor s m (copyBoard (board s)) ?nh
         \<lparr>ptype = pieceType m, color = ?p, pid = i\<rparr> = Inr s'"
      by blast
    have "handKinds ?nh + mset (get (hands s) ?p)
          = handKinds (hands s) + mset (remove1 (pieceType m) (get (hands s) ?p))"
      by (rule handKinds_put)
    moreover from k have "mset (get (hands s) ?p)
          = mset (remove1 (pieceType m) (get (hands s) ?p)) + {#pieceType m#}"
      by simp
    ultimately have hk: "handKinds ?nh + {#pieceType m#} = handKinds (hands s)"
      by (rule mset_return)
    show ?thesis
    proof (cases "isIndex (col (mto m))")
      case idx: True
      from applyMove_kinds[OF am idx]
      have "allKinds s' = boardKinds (board s) + (handKinds ?nh + {#pieceType m#})"
        by (simp add: boardKinds_copyBoard)
      with idx show ?thesis unfolding hk by (simp add: allKinds_def)
    next
      case False
      from applyMove_kinds_named[OF am False copyBoard_plain]
      have "allKinds s' + {#pieceType m#} = boardKinds (board s) + (handKinds ?nh + {#pieceType m#})"
        by (simp add: boardKinds_copyBoard)
      with False True show ?thesis unfolding hk mk by (simp add: allKinds_def)
    qed
  next
    case Relocate
    from executeMove_Relocate[OF True assms Relocate] obtain f p nb where
      f: "mfrom m = Some f"
      and rd: "readAt (copyBoard (board s)) f = Inr (Some p)"
      and wr: "writeAt (copyBoard (board s)) f None = Inr nb"
      and am: "applyMove myColor s m nb (hands s) p = Inr s'"
      by blast
    from Relocate f rd have mk: "movedKind s m = ptype p" by (simp add: movedKind_def)
    have fi: "isIndex (col f)"
    proof (rule ccontr)
      assume "\<not> isIndex (col f)"
      from readAt_plain[OF copyBoard_plain this rd] show False by simp
    qed
    from writeAt_kinds[OF wr fi] rd
    have b0: "boardKinds nb + {#ptype p#} = boardKinds (board s)"
      by (simp add: cellKinds_def boardKinds_copyBoard)
    show ?thesis
    proof (cases "isIndex (col (mto m))")
      case idx: True
      from applyMove_kinds[OF am idx] b0 idx show ?thesis
        by (simp add: allKinds_def)
    next
      case False
      from applyMove_kinds_named[OF am False writeAt_plain[OF wr fi copyBoard_plain]] b0
      have "allKinds s' + {#ptype p#} = allKinds s"
        by (simp add: allKinds_def)
      with False True show ?thesis unfolding mk by simp
    qed
  qed
qed

lemma executeMove_kinds:
  assumes "executeMove myColor now s m = Inr s'" "inGrid (mto m)"
  shows "allKinds s' = allKinds s"
proof -
  from assms(2) have "isIndex (col (mto m))" by (simp add: inGrid_def isIndex_def GRID_SIZE_def)
  with executeMove_kinds_cases[OF assms(1)] show ?thesis by blast
qed

lemma executeMove_kinds_le:
  assumes "executeMove myColor now s m = Inr s'"
  shows "allKinds s' \<subseteq># allKinds s"
proof (cases "isIndex (col (mto m)) \<or> \<not> applied s m")
  case True
  with executeMove_kinds_cases[OF assms] show ?thesis by simp
next
  case False
  with executeMove_kinds_cases[OF assms]
  have "allKinds s' + {#movedKind s m#} = allKinds s" by blast
  then show ?thesis by (metis mset_subset_eq_add_left)
qed

lemma reset_kinds: "allKinds (resetGame mode diff firstPlayer) = mset INITIAL_HAND + mset INITIAL_HAND"
proof -
  have "boardKinds createEmptyBoard = {#}" by code_simp
  then show ?thesis
    by (simp add: allKinds_def resetGame_def Let_def handKinds_def)
qed

lemma played_kinds: "played s \<Longrightarrow> allKinds s = mset INITIAL_HAND + mset INITIAL_HAND"
proof (induction rule: played.induct)
  case (reset mode diff firstPlayer)
  show ?case by (rule reset_kinds)
next
  case (step s m myColor now s')
  from step.hyps(2) have "inGrid (mto m)" by (simp add: gridMove_def)
  from executeMove_kinds[OF step.hyps(3) this] step.IH show ?case by simp
next
  case (left s)
  then show ?case by (simp add: allKinds_def)
qed

lemma reachable_kinds: "reachable s \<Longrightarrow> allKinds s \<subseteq># mset INITIAL_HAND + mset INITIAL_HAND"
proof (induction rule: reachable.induct)
  case (reset mode diff firstPlayer)
  show ?case by (simp add: reset_kinds)
next
  case (step s myColor now m s')
  from executeMove_kinds_le[OF step.hyps(2)] step.IH show ?case
    by (rule subset_mset.order_trans)
next
  case (left s)
  then show ?case by (simp add: allKinds_def)
qed

text \<open>
  C5, as the code has it. \<open>executeMove\<close> does not look at the squares of the move it is
  given. From the starting position, which holds eight kinds, the placement of White's
  pawn on row 0 at column \<open>-1\<close> returns a state whose board and hands hold seven: the
  pawn has left the hand and has become a property of the row, not one of its elements.
\<close>

theorem kinds_conserved_counterexample:
  "reachable start
   \<and> size (allKinds start) = 8
   \<and> \<not> isl (executeMove None 0 start besideBoard)
   \<and> size (allKinds (projr (executeMove None 0 start besideBoard))) = 7
   \<and> allKinds (projr (executeMove None 0 start besideBoard)) \<noteq> allKinds start"
proof -
  let ?r = "executeMove None 0 start besideBoard"
  have r: "reachable start" unfolding start_def by (rule reachable.reset)
  have k: "allKinds start = mset INITIAL_HAND + mset INITIAL_HAND"
    unfolding start_def by (rule reset_kinds)
  then have 8: "size (allKinds start) = 8" by (simp add: INITIAL_HAND_def)
  have ex: "\<not> isl ?r" by code_simp
  have "flat (board (projr ?r)) = replicate 16 None"
    "hands (projr ?r) = \<lparr>white = [ROOK, KNIGHT, BISHOP], black = [PAWN, ROOK, KNIGHT, BISHOP]\<rparr>"
    by code_simp+
  then have 7: "size (allKinds (projr ?r)) = 7"
    by (simp add: allKinds_def boardKinds_def handKinds_def cellKinds_def numeral_eq_Suc)
  with 8 have "allKinds (projr ?r) \<noteq> allKinds start" by auto
  with r 8 ex 7 show ?thesis by blast
qed

text \<open>
  C5, amended. A call of \<open>executeMove\<close> whose destination is a square of the grid, if it
  returns, leaves the multiset of kinds on the board and in the two hands as it was: a
  placement takes a kind from the mover's hand to the board, a relocation moves a piece
  on the board, a capture takes the displaced kind from the board to its owner's hand,
  and the guarded calls return the state unchanged. So every state of a game played on
  the grid holds the kinds of the two initial hands, eight in all, two of each kind, on
  a board of the grid's shape. No call, whatever its move, adds a kind: the kinds after
  it are among the kinds before it, and a reachable state holds at most the eight.
\<close>

theorem kinds_conserved:
  "(executeMove myColor now s m = Inr s' \<and> inGrid (mto m) \<longrightarrow> allKinds s' = allKinds s)
   \<and> (executeMove myColor now s m = Inr s' \<longrightarrow> allKinds s' \<subseteq># allKinds s)
   \<and> (played s \<longrightarrow>
         wf_board (board s)
       \<and> allKinds s = mset INITIAL_HAND + mset INITIAL_HAND
       \<and> allKinds s = {#PAWN, PAWN, ROOK, ROOK, KNIGHT, KNIGHT, BISHOP, BISHOP#}
       \<and> size (allKinds s) = 8)
   \<and> (reachable s \<longrightarrow> size (allKinds s) \<le> 8)"
proof -
  have 3: "size (allKinds s) = 8 \<and> allKinds s = {#PAWN, PAWN, ROOK, ROOK, KNIGHT, KNIGHT, BISHOP, BISHOP#}"
    if "played s"
    using played_kinds[OF that] by (simp add: INITIAL_HAND_def)
  have 4: "size (allKinds s) \<le> 8" if "reachable s"
    using size_mset_mono[OF reachable_kinds[OF that]] by (simp add: INITIAL_HAND_def)
  from executeMove_kinds executeMove_kinds_le played_kinds played_wf 3 4 show ?thesis by blast
qed

theorem kinds_conserved_witness:
  "allKinds rookFacesBishop = {#ROOK, BISHOP, PAWN, KNIGHT, BISHOP, PAWN, ROOK, KNIGHT#}
   \<and> allKinds (projr (executeMove None 0 rookFacesBishop (clickMove ROOK 0 0 0 3)))
       = {#ROOK, BISHOP, PAWN, KNIGHT, BISHOP, PAWN, ROOK, KNIGHT#}
   \<and> size (allKinds (projr (executeMove None 0 start (placeMove ROOK 0 0)))) = 8"
proof -
  let ?m = "clickMove ROOK 0 0 0 3"
  let ?r = "executeMove None 0 rookFacesBishop ?m"
  have "\<not> isl ?r" by code_simp
  then have ex: "?r = Inr (projr ?r)" by (rule not_isl_projr)
  have g: "inGrid (mto ?m)" by code_simp
  have "flat (board rookFacesBishop)
      = [Some \<lparr>ptype = ROOK, color = White, pid = ''white-R-1''\<rparr>, None, None,
         Some \<lparr>ptype = BISHOP, color = Black, pid = ''black-B-2''\<rparr>] @ replicate 12 None"
    "hands rookFacesBishop = \<lparr>white = [PAWN, KNIGHT, BISHOP], black = [PAWN, ROOK, KNIGHT]\<rparr>"
    by code_simp+
  then have k: "allKinds rookFacesBishop = {#ROOK, BISHOP, PAWN, KNIGHT, BISHOP, PAWN, ROOK, KNIGHT#}"
    by (simp add: allKinds_def boardKinds_def handKinds_def cellKinds_def numeral_eq_Suc)
  from kinds_conserved[of None 0 rookFacesBishop ?m "projr ?r"] ex g
  have a: "allKinds (projr ?r) = allKinds rookFacesBishop" by blast
  let ?q = "executeMove None 0 start (placeMove ROOK 0 0)"
  have "\<not> isl ?q" by code_simp
  then have q: "?q = Inr (projr ?q)" by (rule not_isl_projr)
  have "gridMove (placeMove ROOK 0 0)" by code_simp
  with played.reset[of Local Medium White] have "played (projr ?q)"
    unfolding start_def using q[unfolded start_def] by (rule played.step)
  with kinds_conserved[of None 0 "projr ?q" ?m "projr ?r"]
  have "size (allKinds (projr ?q)) = 8" by blast
  with a k show ?thesis by simp
qed

section \<open>Terminal detector\<close>

lemma winLines_explicit:
  "winLines =
     [[mkPos 0 0, mkPos 0 1, mkPos 0 2, mkPos 0 3],
      [mkPos 1 0, mkPos 1 1, mkPos 1 2, mkPos 1 3],
      [mkPos 2 0, mkPos 2 1, mkPos 2 2, mkPos 2 3],
      [mkPos 3 0, mkPos 3 1, mkPos 3 2, mkPos 3 3],
      [mkPos 0 0, mkPos 1 0, mkPos 2 0, mkPos 3 0],
      [mkPos 0 1, mkPos 1 1, mkPos 2 1, mkPos 3 1],
      [mkPos 0 2, mkPos 1 2, mkPos 2 2, mkPos 3 2],
      [mkPos 0 3, mkPos 1 3, mkPos 2 3, mkPos 3 3],
      [mkPos 0 0, mkPos 1 1, mkPos 2 2, mkPos 3 3],
      [mkPos 0 3, mkPos 1 2, mkPos 2 1, mkPos 3 0]]"
  by code_simp

text \<open>
  C4. The candidate lines are the \<open>2 * GRID_SIZE + 2\<close> lines written out below, rows
  first, then columns, then the two diagonals. \<open>checkWin\<close> returns a line iff some
  candidate has every square holding a piece of the color, and the line it returns is
  the first such candidate in that order: it is full, and every candidate before it has
  a square that is empty or the opponent's.
\<close>

theorem checkWin_first_full_line:
  "length winLines = 2 * GRID_SIZE + 2
   \<and> winLines =
     [[mkPos 0 0, mkPos 0 1, mkPos 0 2, mkPos 0 3],
      [mkPos 1 0, mkPos 1 1, mkPos 1 2, mkPos 1 3],
      [mkPos 2 0, mkPos 2 1, mkPos 2 2, mkPos 2 3],
      [mkPos 3 0, mkPos 3 1, mkPos 3 2, mkPos 3 3],
      [mkPos 0 0, mkPos 1 0, mkPos 2 0, mkPos 3 0],
      [mkPos 0 1, mkPos 1 1, mkPos 2 1, mkPos 3 1],
      [mkPos 0 2, mkPos 1 2, mkPos 2 2, mkPos 3 2],
      [mkPos 0 3, mkPos 1 3, mkPos 2 3, mkPos 3 3],
      [mkPos 0 0, mkPos 1 1, mkPos 2 2, mkPos 3 3],
      [mkPos 0 3, mkPos 1 2, mkPos 2 1, mkPos 3 0]]
   \<and> (\<forall>pos. ownedBy b p pos \<longleftrightarrow>
         (\<exists>q. cell b (nat (row pos)) (nat (col pos)) = Some q \<and> color q = p))
   \<and> ((\<exists>l. checkWin b p = Some l) \<longleftrightarrow> (\<exists>l \<in> set winLines. \<forall>pos \<in> set l. ownedBy b p pos))
   \<and> (\<forall>l. checkWin b p = Some l \<longleftrightarrow>
         (\<exists>i < length winLines. l = winLines ! i
            \<and> (\<forall>pos \<in> set l. ownedBy b p pos)
            \<and> (\<forall>j < i. \<exists>pos \<in> set (winLines ! j). \<not> ownedBy b p pos)))"
proof -
  have 1: "length winLines = 2 * GRID_SIZE + 2"
    by (simp add: winLines_explicit GRID_SIZE_def)
  have 3: "\<forall>pos. ownedBy b p pos \<longleftrightarrow>
         (\<exists>q. cell b (nat (row pos)) (nat (col pos)) = Some q \<and> color q = p)"
    by (auto simp: ownedBy_def split: option.splits)
  have 5: "\<forall>l. checkWin b p = Some l \<longleftrightarrow>
         (\<exists>i < length winLines. l = winLines ! i
            \<and> (\<forall>pos \<in> set l. ownedBy b p pos)
            \<and> (\<forall>j < i. \<exists>pos \<in> set (winLines ! j). \<not> ownedBy b p pos))"
    unfolding checkWin_def find_Some_iff list_all_iff by auto
  have 4: "(\<exists>l. checkWin b p = Some l) \<longleftrightarrow> (\<exists>l \<in> set winLines. \<forall>pos \<in> set l. ownedBy b p pos)"
  proof -
    have "(\<exists>l. checkWin b p = Some l) \<longleftrightarrow> checkWin b p \<noteq> None" by auto
    also have "\<dots> \<longleftrightarrow> (\<exists>l \<in> set winLines. \<forall>pos \<in> set l. ownedBy b p pos)"
      unfolding checkWin_def find_None_iff list_all_iff by auto
    finally show ?thesis .
  qed
  from 1 winLines_explicit 3 4 5 show ?thesis by blast
qed

theorem checkWin_first_full_line_witness:
  "checkWin fourInRow White = Some [mkPos 1 0, mkPos 1 1, mkPos 1 2, mkPos 1 3]
   \<and> checkWin threeInRow White = None
   \<and> checkWin fourInRow Black = None"
proof -
  have a: "checkWin fourInRow White = Some [mkPos 1 0, mkPos 1 1, mkPos 1 2, mkPos 1 3]"
    by code_simp
  have "\<not> (\<exists>l \<in> set winLines. \<forall>pos \<in> set l. ownedBy threeInRow White pos)" by code_simp
  with checkWin_first_full_line[of threeInRow White]
  have b: "checkWin threeInRow White = None" by (cases "checkWin threeInRow White") blast+
  have "\<not> (\<exists>l \<in> set winLines. \<forall>pos \<in> set l. ownedBy fourInRow Black pos)" by code_simp
  with checkWin_first_full_line[of fourInRow Black]
  have c: "checkWin fourInRow Black = None" by (cases "checkWin fourInRow Black") blast+
  from a b c show ?thesis by blast
qed

section \<open>Evaluator\<close>

lemma sum_list_between:
  assumes "\<forall>x \<in> set xs. lo \<le> f x \<and> f x \<le> (hi::int)"
  shows "int (length xs) * lo \<le> sum_list (map f xs) \<and> sum_list (map f xs) \<le> int (length xs) * hi"
  using assms
proof (induction xs)
  case Nil
  then show ?case by simp
next
  case (Cons a xs)
  then have "lo \<le> f a" "f a \<le> hi"
    "int (length xs) * lo \<le> sum_list (map f xs)" "sum_list (map f xs) \<le> int (length xs) * hi"
    by auto
  then show ?case by (simp add: algebra_simps)
qed

lemma lineScore_bound: "- 1500 \<le> lineScore b ai l \<and> lineScore b ai l \<le> 1000"
  by (simp add: lineScore_def Let_def THREE_IN_ROW_def TWO_IN_ROW_def)

lemma getLines_length: "length getLines = 10"
  by code_simp

lemma lines_bound:
  "- 15000 \<le> sum_list (map (lineScore b ai) getLines)
   \<and> sum_list (map (lineScore b ai) getLines) \<le> 10000"
  using sum_list_between[of getLines "- 1500" "lineScore b ai" 1000]
  by (simp add: lineScore_bound getLines_length)

lemma squareScore_bound:
  "- (if (i = 1 \<or> i = 2) \<and> (j = 1 \<or> j = 2) then 130 else 50) \<le> squareScore b ai i j
   \<and> squareScore b ai i j \<le> (if (i = 1 \<or> i = 2) \<and> (j = 1 \<or> j = 2) then 130 else 50)"
  by (auto simp: squareScore_def Let_def CENTER_SQUARES_def mkPos_def PIECE_ON_BOARD_def CENTER_def
           split: option.splits)

lemma grid_indices: "[0..<GRID_SIZE] = [0, 1, 2, 3]"
  by code_simp

lemma squares_bound:
  "- 1120 \<le> sum_list (map (\<lambda>i. sum_list (map (\<lambda>j. squareScore b ai i j) [0..<GRID_SIZE])) [0..<GRID_SIZE])
   \<and> sum_list (map (\<lambda>i. sum_list (map (\<lambda>j. squareScore b ai i j) [0..<GRID_SIZE])) [0..<GRID_SIZE])
       \<le> 1120"
proof -
  have s: "- (if (i = 1 \<or> i = 2) \<and> (j = 1 \<or> j = 2) then 130 else 50) \<le> squareScore b ai i j
   \<and> squareScore b ai i j \<le> (if (i = 1 \<or> i = 2) \<and> (j = 1 \<or> j = 2) then 130 else 50)"
    for i j by (rule squareScore_bound)
  have r: "- 200 \<le> sum_list (map (\<lambda>j. squareScore b ai i j) [0..<GRID_SIZE])
         \<and> sum_list (map (\<lambda>j. squareScore b ai i j) [0..<GRID_SIZE]) \<le> 200"
    if "i = 0 \<or> i = 3" for i
    using s[of i 0] s[of i 1] s[of i 2] s[of i 3] that unfolding grid_indices by auto
  have c: "- 360 \<le> sum_list (map (\<lambda>j. squareScore b ai i j) [0..<GRID_SIZE])
         \<and> sum_list (map (\<lambda>j. squareScore b ai i j) [0..<GRID_SIZE]) \<le> 360"
    if "i = 1 \<or> i = 2" for i
    using s[of i 0] s[of i 1] s[of i 2] s[of i 3] that unfolding grid_indices by auto
  have "sum_list (map (\<lambda>i. sum_list (map (\<lambda>j. squareScore b ai i j) [0..<GRID_SIZE])) [0..<GRID_SIZE])
      = sum_list (map (\<lambda>j. squareScore b ai 0 j) [0..<GRID_SIZE])
      + sum_list (map (\<lambda>j. squareScore b ai 1 j) [0..<GRID_SIZE])
      + sum_list (map (\<lambda>j. squareScore b ai 2 j) [0..<GRID_SIZE])
      + sum_list (map (\<lambda>j. squareScore b ai 3 j) [0..<GRID_SIZE])"
    by (subst (1) grid_indices) simp
  moreover have "0 = 0 \<or> 0 = (3::nat)" "3 = 0 \<or> 3 = (3::nat)" "1 = 1 \<or> 1 = (2::nat)"
    "2 = 1 \<or> 2 = (2::nat)" by simp_all
  note r[OF this(1)] r[OF this(2)] c[OF this(3)] c[OF this(4)]
  ultimately show ?thesis by auto
qed

lemma heuristic_arith:
  fixes E L S a b :: int
  assumes "E = L + S + a * 30 - b * 30" "- 15000 \<le> L" "L \<le> 10000" "- 1120 \<le> S" "S \<le> 1120"
  shows "\<bar>E\<bar> \<le> 16120 + 30 * \<bar>a - b\<bar>"
  using assms by (auto simp: abs_if)

lemma below_win_arith:
  fixes E d :: int
  assumes "\<bar>E\<bar> \<le> 16120 + 30 * d" "d \<le> 2795"
  shows "- 100000 < E \<and> E < 100000"
  using assms by (auto simp: abs_if split: if_splits)

lemma heuristic_bound:
  assumes "checkWin b ai = None" "checkWin b (other ai) = None"
  shows "\<bar>evaluateBoard b h ai\<bar>
           \<le> 16120 + 30 * \<bar>int (length (get h ai)) - int (length (get h (other ai)))\<bar>"
proof -
  let ?L = "sum_list (map (lineScore b ai) getLines)"
  let ?S = "sum_list (map (\<lambda>i. sum_list (map (\<lambda>j. squareScore b ai i j) [0..<GRID_SIZE])) [0..<GRID_SIZE])"
  have "evaluateBoard b h ai = ?L + ?S + int (length (get h ai)) * 30 - int (length (get h (other ai))) * 30"
    using assms by (simp add: evaluateBoard_def Let_def PIECE_IN_HAND_def)
  then show ?thesis
    using lines_bound[of b ai, THEN conjunct1] lines_bound[of b ai, THEN conjunct2]
      squares_bound[of b ai, THEN conjunct1] squares_bound[of b ai, THEN conjunct2]
    by (rule heuristic_arith)
qed


lemma hands_diff: "\<bar>int (length (get h ai)) - int (length (get h (other ai)))\<bar>
    = \<bar>int (length (white h)) - int (length (black h))\<bar>"
  by (cases ai) (simp_all add: get_def other_def)

section \<open>Position hasher\<close>

subsection \<open>Splitting at a separator\<close>



subsection \<open>Decimal strings\<close>





lemma digits_nonempty: "digits n \<noteq> []"
  by (subst digits.simps) simp





subsection \<open>The parts of the key\<close>




















section \<open>The validator, the generator and the simulation return\<close>

subsection \<open>The validator returns\<close>

lemma pathLoop_straight:
  assumes "rs \<noteq> 0 \<or> cs \<noteq> 0"
    and "row to = r + int n * rs" "col to = c + int n * cs"
    and "\<forall>k<n. 0 \<le> r + int k * rs \<and> r + int k * rs < int (length b)"
  shows "\<exists>v. pathLoop b rs cs to r c = Some (Inr v)"
  using assms(2-)
proof (induction n arbitrary: r c)
  case 0
  then show ?case by (subst pathLoop.simps) simp
next
  case (Suc n)
  from assms(1) Suc.prems(1,2) have ne: "r \<noteq> row to \<or> c \<noteq> col to" by auto
  from Suc.prems(3) have "0 \<le> r + int 0 * rs \<and> r + int 0 * rs < int (length b)" by blast
  then have "rowOk b \<lparr>row = r, col = c\<rparr>" by (simp add: rowOk_def)
  then have "\<exists>x. readAt b \<lparr>row = r, col = c\<rparr> = Inr x" by (simp add: readAt_def)
  then obtain x where rd: "readAt b \<lparr>row = r, col = c\<rparr> = Inr x" by blast
  show ?case
  proof (cases x)
    case None
    have "\<exists>v. pathLoop b rs cs to (r + rs) (c + cs) = Some (Inr v)"
    proof (rule Suc.IH)
      show "row to = r + rs + int n * rs" using Suc.prems(1) by (simp add: algebra_simps)
      show "col to = c + cs + int n * cs" using Suc.prems(2) by (simp add: algebra_simps)
      show "\<forall>k<n. 0 \<le> r + rs + int k * rs \<and> r + rs + int k * rs < int (length b)"
      proof (intro allI impI)
        fix k assume "k < n"
        then have "Suc k < Suc n" by simp
        with Suc.prems(3) have "0 \<le> r + int (Suc k) * rs \<and> r + int (Suc k) * rs < int (length b)"
          by blast
        then show "0 \<le> r + rs + int k * rs \<and> r + rs + int k * rs < int (length b)"
          by (simp add: algebra_simps)
      qed
    qed
    with ne rd None show ?thesis by (subst pathLoop.simps) auto
  next
    case (Some q)
    with ne rd show ?thesis by (subst pathLoop.simps) auto
  qed
qed

lemma rookMove_total:
  assumes "length b = GRID_SIZE" "inGrid f" "inGrid t" "f \<noteq> t"
  shows "\<exists>v. rookMove b f t = Some (Inr v)"
proof (cases "row t - row f \<noteq> 0 \<and> col t - col f \<noteq> 0")
  case True
  then show ?thesis by (simp add: rookMove_def Let_def)
next
  case False
  let ?dr = "row t - row f" and ?dc = "col t - col f"
  let ?rs = "if ?dr = 0 then 0 else if ?dr > 0 then 1 else - 1 :: int"
  let ?cs = "if ?dc = 0 then 0 else if ?dc > 0 then 1 else - 1 :: int"
  let ?n = "nat (\<bar>?dr\<bar> + \<bar>?dc\<bar> - 1)"
  from assms(4) have d: "?dr \<noteq> 0 \<or> ?dc \<noteq> 0" by (cases f; cases t) auto
  have "\<exists>v. pathLoop b ?rs ?cs t (row f + ?rs) (col f + ?cs) = Some (Inr v)"
  proof (rule pathLoop_straight[where n = ?n])
    show "?rs \<noteq> 0 \<or> ?cs \<noteq> 0" using d by auto
    show "row t = row f + ?rs + int ?n * ?rs" using d False by (auto simp: algebra_simps)
    show "col t = col f + ?cs + int ?n * ?cs" using d False by (auto simp: algebra_simps)
    show "\<forall>k<?n. 0 \<le> row f + ?rs + int k * ?rs \<and> row f + ?rs + int k * ?rs < int (length b)"
    proof (intro allI impI)
      fix k assume k: "k < ?n"
      show "0 \<le> row f + ?rs + int k * ?rs \<and> row f + ?rs + int k * ?rs < int (length b)"
      proof (cases "?dr = 0")
        case True
        with assms(1,2) show ?thesis by (simp add: inGrid_def)
      next
        case F: False
        with False have "?dc = 0" by simp
        with k F assms(1,2,3) show ?thesis by (auto simp: inGrid_def algebra_simps)
      qed
    qed
  qed
  with False show ?thesis by (simp add: rookMove_def Let_def)
qed

lemma bishopMove_total:
  assumes "length b = GRID_SIZE" "inGrid f" "inGrid t" "f \<noteq> t"
  shows "\<exists>v. bishopMove b f t = Some (Inr v)"
proof (cases "\<bar>row t - row f\<bar> \<noteq> \<bar>col t - col f\<bar>")
  case True
  then show ?thesis by (simp add: bishopMove_def Let_def)
next
  case False
  let ?dr = "row t - row f" and ?dc = "col t - col f"
  let ?rs = "if ?dr > 0 then 1 else - 1 :: int"
  let ?cs = "if ?dc > 0 then 1 else - 1 :: int"
  let ?n = "nat (\<bar>?dr\<bar> - 1)"
  from assms(4) False have d: "?dr \<noteq> 0" "?dc \<noteq> 0" by (cases f; cases t; auto)+
  have "\<exists>v. pathLoop b ?rs ?cs t (row f + ?rs) (col f + ?cs) = Some (Inr v)"
  proof (rule pathLoop_straight[where n = ?n])
    show "?rs \<noteq> 0 \<or> ?cs \<noteq> 0" by auto
    show "row t = row f + ?rs + int ?n * ?rs" using d by (auto simp: algebra_simps)
    show "col t = col f + ?cs + int ?n * ?cs" using d False by (auto simp: algebra_simps)
    show "\<forall>k<?n. 0 \<le> row f + ?rs + int k * ?rs \<and> row f + ?rs + int k * ?rs < int (length b)"
      using d assms(1,2,3) by (auto simp: inGrid_def algebra_simps)
  qed
  with False show ?thesis by (simp add: bishopMove_def Let_def)
qed

lemma readAt_inGrid:
  assumes "wf_board b" "inGrid p"
  shows "readAt b p = Inr (cell b (nat (row p)) (nat (col p)))"
proof -
  from assms have "rowOk b p" by (simp add: rowOk_def wf_board_def inGrid_def)
  with assms(2) show ?thesis by (simp add: readAt_def cell_def inGrid_def)
qed

lemma isValidMove_total:
  assumes "wf_board (board s)" "inGrid f" "inGrid t" "f \<noteq> t"
  shows "\<exists>v. isValidMove s p f t = Some (Inr v)"
proof -
  from assms(1) have l: "length (board s) = GRID_SIZE" by (simp add: wf_board_def)
  have "\<exists>v. pieceMove s p tp f t = Some (Inr v)" for tp
    using rookMove_total[OF l assms(2-)] bishopMove_total[OF l assms(2-)]
    by (cases "ptype p") (simp_all add: pieceMove_def)
  with assms(3) readAt_inGrid[OF assms(1,3)] show ?thesis
    by (simp add: isValidMove_def inGrid_def)
qed


subsection \<open>The move generator returns, and its moves stay on the grid\<close>

lemma collect_ok:
  assumes "\<forall>x \<in> set xs. \<exists>ys. x = Some (Inr ys) \<and> (\<forall>y \<in> set ys. P y)"
  shows "\<exists>zs. collect xs = Some (Inr zs) \<and> (\<forall>z \<in> set zs. P z)"
  using assms
proof (induction xs)
  case Nil
  then show ?case by simp
next
  case (Cons x xs)
  then obtain ys zs where "x = Some (Inr ys)" "\<forall>y \<in> set ys. P y"
    "collect xs = Some (Inr zs)" "\<forall>z \<in> set zs. P z"
    by auto
  then show ?case by auto
qed

lemma mkPos_inGrid: "i < GRID_SIZE \<Longrightarrow> j < GRID_SIZE \<Longrightarrow> inGrid (mkPos i j)"
  by (simp add: inGrid_def mkPos_def)

lemma mkPos_eq: "mkPos i j = mkPos ti tj \<longleftrightarrow> i = ti \<and> j = tj"
  by (auto simp: mkPos_def)

lemma gridMove_placeMove: "i < GRID_SIZE \<Longrightarrow> j < GRID_SIZE \<Longrightarrow> gridMove (placeMove t i j)"
  by (simp add: gridMove_def placeMove_def mkPos_inGrid)

lemma gridMove_boardMove:
  "i < GRID_SIZE \<Longrightarrow> j < GRID_SIZE \<Longrightarrow> ti < GRID_SIZE \<Longrightarrow> tj < GRID_SIZE
     \<Longrightarrow> gridMove (boardMove b piece i j ti tj)"
  by (simp add: gridMove_def boardMove_def mkPos_inGrid)

lemma collect_map_ok:
  assumes "\<And>x. x \<in> set xs \<Longrightarrow> \<exists>ys. f x = Some (Inr ys) \<and> (\<forall>y \<in> set ys. P y)"
  shows "\<exists>zs. collect (map f xs) = Some (Inr zs) \<and> (\<forall>z \<in> set zs. P z)"
  by (rule collect_ok) (use assms in auto)

lemma targetMoves_ok:
  assumes "wf_board (board s)" "i < GRID_SIZE" "j < GRID_SIZE"
  shows "\<exists>ms. targetMoves s piece i j = Some (Inr ms) \<and> (\<forall>m \<in> set ms. gridMove m)"
  unfolding targetMoves_def
proof (rule collect_map_ok[where P = gridMove])
  fix ti assume "ti \<in> set [0..<GRID_SIZE]"
  then have ti: "ti < GRID_SIZE" by simp
  show "\<exists>ys. collect (map (\<lambda>tj.
         if i = ti \<and> j = tj then Some (Inr [])
         else (case isValidMove s piece (mkPos i j) (mkPos ti tj) of
                 None \<Rightarrow> None
               | Some (Inl e) \<Rightarrow> Some (Inl e)
               | Some (Inr validation) \<Rightarrow>
                   Some (Inr (if valid validation
                              then [boardMove (board s) piece i j ti tj] else []))))
         [0..<GRID_SIZE]) = Some (Inr ys) \<and> (\<forall>y \<in> set ys. gridMove y)"
  proof (rule collect_map_ok[where P = gridMove])
    fix tj assume "tj \<in> set [0..<GRID_SIZE]"
    then have tj: "tj < GRID_SIZE" by simp
    show "\<exists>ys. (if i = ti \<and> j = tj then Some (Inr [])
         else (case isValidMove s piece (mkPos i j) (mkPos ti tj) of
                 None \<Rightarrow> None
               | Some (Inl e) \<Rightarrow> Some (Inl e)
               | Some (Inr validation) \<Rightarrow>
                   Some (Inr (if valid validation
                              then [boardMove (board s) piece i j ti tj] else []))))
             = Some (Inr ys) \<and> (\<forall>y \<in> set ys. gridMove y)"
    proof (cases "i = ti \<and> j = tj")
      case True
      then show ?thesis by simp
    next
      case False
      then have "mkPos i j \<noteq> mkPos ti tj" by (simp add: mkPos_eq)
      from isValidMove_total[OF assms(1) mkPos_inGrid[OF assms(2,3)] mkPos_inGrid[OF ti tj] this]
      obtain v where "isValidMove s piece (mkPos i j) (mkPos ti tj) = Some (Inr v)" by blast
      with False gridMove_boardMove[OF assms(2,3) ti tj] show ?thesis by simp
    qed
  qed
qed

lemma boardMoves_ok:
  assumes "wf_board (board s)"
  shows "\<exists>ms. boardMoves s p = Some (Inr ms) \<and> (\<forall>m \<in> set ms. gridMove m)"
  unfolding boardMoves_def
proof (rule collect_map_ok[where P = gridMove])
  fix i assume "i \<in> set [0..<GRID_SIZE]"
  then have i: "i < GRID_SIZE" by simp
  show "\<exists>ys. collect (map (\<lambda>j.
         (case cell (board s) i j of
            None \<Rightarrow> Some (Inr [])
          | Some piece \<Rightarrow>
              if color piece = p then targetMoves s piece i j else Some (Inr [])))
         [0..<GRID_SIZE]) = Some (Inr ys) \<and> (\<forall>y \<in> set ys. gridMove y)"
  proof (rule collect_map_ok[where P = gridMove])
    fix j assume "j \<in> set [0..<GRID_SIZE]"
    then have j: "j < GRID_SIZE" by simp
    show "\<exists>ys. (case cell (board s) i j of
            None \<Rightarrow> Some (Inr [])
          | Some piece \<Rightarrow>
              if color piece = p then targetMoves s piece i j else Some (Inr []))
            = Some (Inr ys) \<and> (\<forall>y \<in> set ys. gridMove y)"
      using targetMoves_ok[OF assms i j] by (cases "cell (board s) i j") auto
  qed
qed

lemma placementMoves_grid: "\<forall>m \<in> set (placementMoves b h). gridMove m"
  by (auto simp: placementMoves_def gridMove_placeMove split: if_splits)

lemma getLegalMoves_ok:
  assumes "wf_board (board s)"
  shows "\<exists>ms. getLegalMoves s p = Some (Inr ms) \<and> (\<forall>m \<in> set ms. gridMove m)"
proof -
  from boardMoves_ok[OF assms] obtain bs where
    "boardMoves s p = Some (Inr bs)" "\<forall>m \<in> set bs. gridMove m" by blast
  with placementMoves_grid[of "board s" "get (hands s) p"] show ?thesis
    by (auto simp: getLegalMoves_def)
qed

subsection \<open>Simulated moves on the grid succeed and keep the board's shape\<close>

lemma writeAt_inGrid:
  assumes "wf_board b" "inGrid p"
  shows "\<exists>nb. writeAt b p v = Inr nb \<and> wf_board nb"
proof -
  from assms have "rowOk b p" by (simp add: rowOk_def wf_board_def inGrid_def)
  then obtain nb where nb: "writeAt b p v = Inr nb" by (simp add: writeAt_def)
  from writeAt_wf[OF nb assms] nb show ?thesis by blast
qed

lemma simulateMove_ok:
  assumes "wf_board (board s)" "gridMove m"
  shows "\<exists>s'. simulateMove s m = Inr s' \<and> wf_board (board s')"
proof (cases "mtype m")
  case Place
  from assms(2) have t: "inGrid (mto m)" by (simp add: gridMove_def)
  from writeAt_inGrid[OF assms(1) t,
         of "Some \<lparr>ptype = pieceType m, color = currentPlayer s, pid = ''sim''\<rparr>"]
  obtain nb where "writeAt (board s) (mto m)
       (Some \<lparr>ptype = pieceType m, color = currentPlayer s, pid = ''sim''\<rparr>) = Inr nb"
    "wf_board nb" by blast
  with Place show ?thesis
    by (simp add: simulateMove_def Let_def copyBoard_wf[OF assms(1)])
next
  case Relocate
  with assms(2) obtain f where f: "mfrom m = Some f" "inGrid f" and t: "inGrid (mto m)"
    by (auto simp: gridMove_def split: option.splits)
  from writeAt_inGrid[OF assms(1) f(2)] obtain b1 where
    b1: "writeAt (board s) f None = Inr b1" "wf_board b1" by blast
  from writeAt_inGrid[OF b1(2) t] obtain nb where
    nb: "writeAt b1 (mto m) (cell (board s) (nat (row f)) (nat (col f))) = Inr nb" "wf_board nb"
    by blast
  from Relocate f b1 nb readAt_inGrid[OF assms(1) f(2)] readAt_inGrid[OF b1(2) t]
  show ?thesis by (simp add: simulateMove_def Let_def copyBoard_wf[OF assms(1)])
qed

section \<open>What the evaluator is given\<close>

subsection \<open>The moves the generator returns are the player's own\<close>

lemma collect_Inr:
  assumes "collect xs = Some (Inr zs)" "z \<in> set zs"
  shows "\<exists>x \<in> set xs. \<exists>ys. x = Some (Inr ys) \<and> z \<in> set ys"
  using assms
proof (induction xs arbitrary: zs)
  case Nil
  then show ?case by simp
next
  case (Cons x xs)
  from Cons.prems(1) obtain ys ws where x: "x = Some (Inr ys)"
    and c: "collect xs = Some (Inr ws)" and zs: "zs = ys @ ws"
    by (auto split: option.splits sum.splits)
  show ?case
  proof (cases "z \<in> set ys")
    case True
    with x show ?thesis by auto
  next
    case False
    with Cons.prems(2) zs have "z \<in> set ws" by simp
    from Cons.IH[OF c this] show ?thesis by auto
  qed
qed

lemma collect_map_Inr:
  assumes "collect (map f xs) = Some (Inr zs)" "z \<in> set zs"
  shows "\<exists>x \<in> set xs. \<exists>ys. f x = Some (Inr ys) \<and> z \<in> set ys"
  using collect_Inr[OF assms] by auto

lemma uniqueHandPieces_set: "set (uniqueHandPieces h) = set h"
proof -
  have "set (foldl (\<lambda>acc t. if t \<in> set acc then acc else acc @ [t]) acc h) = set acc \<union> set h"
    for acc
    by (induction h arbitrary: acc) auto
  then show ?thesis by (simp add: uniqueHandPieces_def)
qed

lemma placementMoves_own:
  assumes "m \<in> set (placementMoves (board s) (get (hands s) p))"
  shows "ownMove s p m"
  using assms
  by (auto simp: placementMoves_def ownMove_def placeMove_def mkPos_inGrid uniqueHandPieces_set
           split: if_splits)

lemma targetMoves_own:
  assumes "targetMoves s piece i j = Some (Inr ms)" "m \<in> set ms"
  shows "mtype m = Relocate \<and> mfrom m = Some (mkPos i j) \<and> inGrid (mto m)"
proof -
  from collect_map_Inr[OF assms(1)[unfolded targetMoves_def] assms(2)] obtain ti ys where
    ti: "ti < GRID_SIZE" and
    ys: "collect (map (\<lambda>tj.
         if i = ti \<and> j = tj then Some (Inr [])
         else (case isValidMove s piece (mkPos i j) (mkPos ti tj) of
                 None \<Rightarrow> None
               | Some (Inl e) \<Rightarrow> Some (Inl e)
               | Some (Inr validation) \<Rightarrow>
                   Some (Inr (if valid validation
                              then [boardMove (board s) piece i j ti tj] else []))))
         [0..<GRID_SIZE]) = Some (Inr ys)" and m: "m \<in> set ys"
    by auto
  from collect_map_Inr[OF ys m] obtain tj zs where
    tj: "tj < GRID_SIZE" and
    zs: "(if i = ti \<and> j = tj then Some (Inr [])
         else (case isValidMove s piece (mkPos i j) (mkPos ti tj) of
                 None \<Rightarrow> None
               | Some (Inl e) \<Rightarrow> Some (Inl e)
               | Some (Inr validation) \<Rightarrow>
                   Some (Inr (if valid validation
                              then [boardMove (board s) piece i j ti tj] else [])))) = Some (Inr zs)"
    and mz: "m \<in> set zs"
    by auto
  from zs mz have "m = boardMove (board s) piece i j ti tj"
    by (auto split: if_splits option.splits sum.splits)
  with ti tj show ?thesis by (simp add: boardMove_def mkPos_inGrid)
qed

lemma boardMoves_own:
  assumes "boardMoves s p = Some (Inr ms)" "m \<in> set ms"
  shows "ownMove s p m"
proof -
  from collect_map_Inr[OF assms(1)[unfolded boardMoves_def] assms(2)] obtain i ys where
    i: "i < GRID_SIZE" and
    ys: "collect (map (\<lambda>j.
         (case cell (board s) i j of
            None \<Rightarrow> Some (Inr [])
          | Some piece \<Rightarrow>
              if color piece = p then targetMoves s piece i j else Some (Inr [])))
         [0..<GRID_SIZE]) = Some (Inr ys)" and m: "m \<in> set ys"
    by auto
  from collect_map_Inr[OF ys m] obtain j zs where
    j: "j < GRID_SIZE" and
    zs: "(case cell (board s) i j of
            None \<Rightarrow> Some (Inr [])
          | Some piece \<Rightarrow>
              if color piece = p then targetMoves s piece i j else Some (Inr [])) = Some (Inr zs)"
    and mz: "m \<in> set zs"
    by auto
  from zs mz obtain piece where c: "cell (board s) i j = Some piece" "color piece = p"
    and t: "targetMoves s piece i j = Some (Inr zs)"
    by (auto split: option.splits if_splits)
  from targetMoves_own[OF t mz] c i j show ?thesis
    by (simp add: ownMove_def mkPos_inGrid) (simp add: mkPos_def)
qed

lemma getLegalMoves_own:
  assumes "getLegalMoves s p = Some (Inr ms)" "m \<in> set ms"
  shows "ownMove s p m"
proof -
  from assms(1) obtain bs where b: "boardMoves s p = Some (Inr bs)"
    and ms: "ms = placementMoves (board s) (get (hands s) p) @ bs"
    by (auto simp: getLegalMoves_def split: option.splits sum.splits)
  from assms(2) ms have "m \<in> set (placementMoves (board s) (get (hands s) p)) \<or> m \<in> set bs"
    by simp
  with placementMoves_own boardMoves_own[OF b] show ?thesis by blast
qed

subsection \<open>A simulated move of the player's own\<close>

lemma cell_copyBoard:
  assumes "i < length b" "j < GRID_SIZE"
  shows "cell (copyBoard b) i j = cell b i j"
proof -
  from assms(2) have "isIndex (int j)" by (simp add: isIndex_def GRID_SIZE_def)
  then have "look (copyRow r) (int j) = look r (int j)" for r
    by (simp add: look_copyRow) (simp add: look_def)
  with assms(1) show ?thesis by (simp add: cell_def copyBoard_def)
qed

lemma cell_writeAt:
  assumes "writeAt b p v = Inr nb" "i < length b"
  shows "cell nb i j = (if row p = int i \<and> col p = int j then v else cell b i j)"
proof -
  from writeAt_Inr[OF assms(1)] have ok: "rowOk b p"
    and nb: "nb = b[nat (row p) := store (b ! nat (row p)) (col p) v]" by simp_all
  show ?thesis
  proof (cases "row p = int i")
    case True
    then have "nat (row p) = i" by simp
    with assms(2) True show ?thesis
      by (simp add: cell_def nb look_store_same look_store_other)
  next
    case False
    with ok have "nat (row p) \<noteq> i" by (auto simp: rowOk_def)
    with False show ?thesis by (simp add: cell_def nb)
  qed
qed

lemma readAt_cell:
  assumes "inGrid p" "length b = GRID_SIZE"
  shows "readAt b p = Inr (cell b (nat (row p)) (nat (col p)))"
  using assms by (simp add: readAt_def cell_def inGrid_def rowOk_def)

lemma simulateMove_own_board:
  assumes "ownMove s p m" "p = currentPlayer s" "length (board s) = GRID_SIZE"
    and "simulateMove s m = Inr c"
  shows "length (board c) = GRID_SIZE \<and> currentPlayer c = other p
       \<and> (\<forall>i<GRID_SIZE. \<forall>j<GRID_SIZE. \<forall>x. cell (board c) i j = Some x \<and> color x \<noteq> p
              \<longrightarrow> cell (board s) i j = Some x)"
proof (cases "mtype m")
  case Place
  with assms(4) obtain nb where
    wr: "writeAt (copyBoard (board s)) (mto m)
           (Some \<lparr>ptype = pieceType m, color = currentPlayer s, pid = ''sim''\<rparr>) = Inr nb"
    and c: "board c = nb" "currentPlayer c = other (currentPlayer s)"
    by (auto simp: simulateMove_def Let_def split: sum.splits)
  have "cell nb i j = Some x \<and> color x \<noteq> p \<longrightarrow> cell (board s) i j = Some x"
    if "i < GRID_SIZE" "j < GRID_SIZE" for i j x
    using cell_writeAt[OF wr, of i j] that assms(2,3)
    by (auto simp: cell_copyBoard split: if_splits)
  with c length_writeAt[OF wr] assms(2,3) show ?thesis by simp
next
  case Relocate
  with assms(1) obtain f q where f: "mfrom m = Some f" "inGrid f"
    and q: "cell (board s) (nat (row f)) (nat (col f)) = Some q" "color q = p"
    by (auto simp: ownMove_def split: option.splits)
  from f(2) assms(3) have fn: "nat (row f) < length (board s)" "nat (col f) < GRID_SIZE"
    by (auto simp: inGrid_def)
  have rd: "readAt (copyBoard (board s)) f = Inr (Some q)"
    using readAt_cell[OF f(2), of "copyBoard (board s)"] assms(3) cell_copyBoard[OF fn] q(1)
    by simp
  with Relocate f assms(4) obtain b1 target nb where
    w1: "writeAt (copyBoard (board s)) f None = Inr b1"
    and w2: "writeAt b1 (mto m) (Some q) = Inr nb"
    and c: "board c = nb" "currentPlayer c = other (currentPlayer s)"
    by (auto simp: simulateMove_def Let_def split: sum.splits)
  have l1: "length b1 = GRID_SIZE" using length_writeAt[OF w1] assms(3) by simp
  have "cell nb i j = Some x \<and> color x \<noteq> p \<longrightarrow> cell (board s) i j = Some x"
    if "i < GRID_SIZE" "j < GRID_SIZE" for i j x
    using cell_writeAt[OF w2, of i j] cell_writeAt[OF w1, of i j] that assms(3) l1 q(2)
    by (auto simp: cell_copyBoard split: if_splits)
  with c length_writeAt[OF w2] l1 assms(2) show ?thesis by simp
qed

lemma mset_placed:
  assumes "N + d = B + t" "P + t = H"
  shows "N + P + d = B + (H::'a multiset)"
proof (rule multiset_eqI)
  fix x
  from assms(1) have "count (N + d) x = count (B + t) x" by simp
  moreover from assms(2) have "count (P + t) x = count H x" by simp
  ultimately show "count (N + P + d) x = count (B + H) x" by simp
qed

lemma simulateMove_own_kinds:
  assumes "ownMove s p m" "p = currentPlayer s" "length (board s) = GRID_SIZE"
    and "simulateMove s m = Inr c"
  shows "allKinds c \<subseteq># allKinds s"
proof -
  from assms(1) have "inGrid (mto m)" by (simp add: ownMove_def)
  then have idx: "isIndex (col (mto m))" by (simp add: inGrid_def isIndex_def GRID_SIZE_def)
  show ?thesis
  proof (cases "mtype m")
    case Place
    let ?nh = "put (hands s) p (remove1 (pieceType m) (get (hands s) p))"
    from Place assms(1) have k: "pieceType m \<in> set (get (hands s) p)"
      by (simp add: ownMove_def)
    from Place assms(2,4) obtain nb where
      wr: "writeAt (copyBoard (board s)) (mto m)
             (Some \<lparr>ptype = pieceType m, color = currentPlayer s, pid = ''sim''\<rparr>) = Inr nb"
      and c: "board c = nb" "hands c = ?nh"
      by (auto simp: simulateMove_def Let_def split: sum.splits)
    from writeAt_kinds[OF wr idx] obtain old where
      b: "boardKinds nb + mset (cellKinds old) = boardKinds (board s) + {#pieceType m#}"
      by (auto simp: cellKinds_def boardKinds_copyBoard)
    have "handKinds ?nh + mset (get (hands s) p)
          = handKinds (hands s) + mset (remove1 (pieceType m) (get (hands s) p))"
      by (rule handKinds_put)
    moreover from k have "mset (get (hands s) p)
          = mset (remove1 (pieceType m) (get (hands s) p)) + {#pieceType m#}"
      by simp
    ultimately have hk: "handKinds ?nh + {#pieceType m#} = handKinds (hands s)"
      by (rule mset_return)
    from mset_placed[OF b hk] have "allKinds c + mset (cellKinds old) = allKinds s"
      by (simp add: allKinds_def c)
    then show ?thesis by (metis mset_subset_eq_add_left)
  next
    case Relocate
    with assms(1) obtain f q where f: "mfrom m = Some f" "inGrid f"
      and q: "cell (board s) (nat (row f)) (nat (col f)) = Some q"
      by (auto simp: ownMove_def split: option.splits)
    from f(2) assms(3) have fn: "nat (row f) < length (board s)" "nat (col f) < GRID_SIZE"
      by (auto simp: inGrid_def)
    from f(2) have fi: "isIndex (col f)" by (simp add: inGrid_def isIndex_def GRID_SIZE_def)
    have rd: "readAt (copyBoard (board s)) f = Inr (Some q)"
      using readAt_cell[OF f(2), of "copyBoard (board s)"] assms(3) cell_copyBoard[OF fn] q
      by simp
    with Relocate f assms(4) obtain b1 target nb where
      w1: "writeAt (copyBoard (board s)) f None = Inr b1"
      and r2: "readAt b1 (mto m) = Inr target"
      and w2: "writeAt b1 (mto m) (Some q) = Inr nb"
      and c: "board c = nb"
        "hands c = (case target of None \<Rightarrow> hands s
                    | Some t \<Rightarrow> put (hands s) (other (currentPlayer s))
                        (get (hands s) (other (currentPlayer s)) @ [ptype t]))"
      by (auto simp: simulateMove_def Let_def split: sum.splits)
    from writeAt_kinds[OF w1 fi] rd
    have b0: "boardKinds b1 + {#ptype q#} = boardKinds (board s)"
      by (simp add: cellKinds_def boardKinds_copyBoard)
    from writeAt_kinds[OF w2 idx] r2
    have b: "boardKinds nb + mset (cellKinds target) = boardKinds b1 + {#ptype q#}"
      by (simp add: cellKinds_def)
    have h: "handKinds (hands c) = handKinds (hands s) + mset (cellKinds target)"
    proof (cases target)
      case None
      then show ?thesis by (simp add: c cellKinds_def)
    next
      case (Some t)
      let ?o = "other (currentPlayer s)"
      have "handKinds (put (hands s) ?o (get (hands s) ?o @ [ptype t])) + mset (get (hands s) ?o)
              = handKinds (hands s) + mset (get (hands s) ?o @ [ptype t])"
        by (rule handKinds_put)
      then have "handKinds (put (hands s) ?o (get (hands s) ?o @ [ptype t]))
          = handKinds (hands s) + {#ptype t#}"
        by simp
      with Some show ?thesis by (simp add: c cellKinds_def)
    qed
    from mset_transfer[OF b h] b0 have "allKinds c = allKinds s"
      by (simp add: allKinds_def c(1))
    then show ?thesis by simp
  qed
qed

lemma winLines_grid:
  assumes "line \<in> set winLines" "pos \<in> set line"
  shows "inGrid pos"
  using assms by (auto simp: winLines_def GRID_SIZE_def inGrid_def mkPos_def)

lemma checkWin_mono:
  assumes "\<forall>i<GRID_SIZE. \<forall>j<GRID_SIZE. \<forall>x. cell c i j = Some x \<and> color x = q
             \<longrightarrow> cell b i j = Some x"
    and "checkWin b q = None"
  shows "checkWin c q = None"
proof -
  have "\<not> list_all (ownedBy c q) line" if l: "line \<in> set winLines" for line
  proof -
    from assms(2) l have "\<not> list_all (ownedBy b q) line"
      by (simp add: checkWin_def find_None_iff)
    then obtain pos where pos: "pos \<in> set line" "\<not> ownedBy b q pos"
      by (auto simp: list_all_iff)
    from winLines_grid[OF l pos(1)]
    have "nat (row pos) < GRID_SIZE" "nat (col pos) < GRID_SIZE" by (auto simp: inGrid_def)
    with pos(2) assms(1) have "\<not> ownedBy c q pos"
      by (auto simp: ownedBy_def split: option.splits)
    with pos(1) show ?thesis by (auto simp: list_all_iff)
  qed
  then show ?thesis by (simp add: checkWin_def find_None_iff)
qed

lemma simulateMove_own_line:
  assumes "ownMove s p m" "p = currentPlayer s" "length (board s) = GRID_SIZE"
    and "simulateMove s m = Inr c" "checkWin (board s) (other p) = None"
  shows "checkWin (board c) (other p) = None"
proof (rule checkWin_mono[OF _ assms(5)])
  from simulateMove_own_board[OF assms(1-4)] other_neq[of p]
  show "\<forall>i<GRID_SIZE. \<forall>j<GRID_SIZE. \<forall>x. cell (board c) i j = Some x \<and> color x = other p
          \<longrightarrow> cell (board s) i j = Some x"
    by auto
qed

lemma searched_invariants:
  assumes "searched c"
  shows "length (board c) = GRID_SIZE \<and> size (allKinds c) \<le> 8
       \<and> checkWin (board c) (currentPlayer c) = None"
  using assms
proof (induction rule: searched.induct)
  case (first s ms m c)
  let ?p = "currentPlayer s"
  from reachable_invariants[OF first.hyps(1)] first.hyps(2)
  have l: "length (board s) = GRID_SIZE" and n: "checkWin (board s) (other ?p) = None"
    by simp_all
  from getLegalMoves_own[OF first.hyps(3,4)] have own: "ownMove s ?p m" .
  from simulateMove_own_board[OF own refl l first.hyps(5)]
  have b: "length (board c) = GRID_SIZE" "currentPlayer c = other ?p" by simp_all
  from size_mset_mono[OF simulateMove_own_kinds[OF own refl l first.hyps(5)]]
    size_mset_mono[OF reachable_kinds[OF first.hyps(1)]]
  have "size (allKinds c) \<le> 8" by (simp add: INITIAL_HAND_def)
  with b simulateMove_own_line[OF own refl l first.hyps(5) n] show ?case by simp
next
  case (deeper s ms m c)
  let ?p = "currentPlayer s"
  from deeper.IH have l: "length (board s) = GRID_SIZE" and k: "size (allKinds s) \<le> 8"
    by simp_all
  from deeper.hyps(2,3) have n: "checkWin (board s) (other ?p) = None"
    by (cases ?p) (simp_all add: other_def)
  from getLegalMoves_own[OF deeper.hyps(4,5)] have own: "ownMove s ?p m" .
  from simulateMove_own_board[OF own refl l deeper.hyps(6)]
  have b: "length (board c) = GRID_SIZE" "currentPlayer c = other ?p" by simp_all
  from size_mset_mono[OF simulateMove_own_kinds[OF own refl l deeper.hyps(6)]] k
  have "size (allKinds c) \<le> 8" by simp
  with b simulateMove_own_line[OF own refl l deeper.hyps(6) n] show ?case by simp
qed

subsection \<open>Dominance of a line\<close>

lemma searched_hands:
  assumes "searched s"
  shows "length (white (hands s)) + length (black (hands s)) \<le> 8"
proof -
  from searched_invariants[OF assms] have "size (allKinds s) \<le> 8" by simp
  then have "size (mset (white (hands s))) + size (mset (black (hands s))) \<le> 8"
    by (simp add: allKinds_def handKinds_def)
  then show ?thesis by simp
qed

lemma searched_one_line:
  assumes "searched s"
  shows "checkWin (board s) ai = None \<or> checkWin (board s) (other ai) = None"
proof -
  from searched_invariants[OF assms] have "checkWin (board s) (currentPlayer s) = None" by simp
  then show ?thesis by (cases ai; cases "currentPlayer s") (simp_all add: other_def)
qed

lemma small_hands_arith:
  fixes E :: int and a b :: nat
  assumes "\<bar>E\<bar> \<le> 16120 + 30 * \<bar>int a - int b\<bar>" "a + b \<le> 8"
  shows "\<bar>E\<bar> \<le> 16360 \<and> - 100000 < E \<and> E < 100000"
  using assms by (auto simp: abs_if split: if_splits)

text \<open>
  C9. The evaluator returns \<open>WIN\<close> when the perspective color has a line, and
  \<open>- WIN\<close> when it has none and the opponent has one; when neither has a line the
  score is the sum of the heuristic terms, whose absolute value is at most 16120 plus 30
  times the difference of the two hands' lengths. On every state the evaluator is given,
  at most one color has a line, so a line of the opponent's gives \<open>- WIN\<close>, and the
  two hands hold at most eight kinds, so the score of a state without a line is at most
  16360 in absolute value, strictly between \<open>- WIN\<close> and \<open>WIN\<close>. Hence among the
  states the search compares, one with a line for the perspective color scores strictly
  more than every one without such a line, and one with a line for the opponent strictly
  less than every one without.
\<close>

theorem evaluateBoard_dominance:
  "0 < WIN
   \<and> (checkWin b ai \<noteq> None \<longrightarrow> evaluateBoard b h ai = WIN)
   \<and> (checkWin b ai = None \<and> checkWin b (other ai) \<noteq> None \<longrightarrow> evaluateBoard b h ai = - WIN)
   \<and> (checkWin b ai = None \<and> checkWin b (other ai) = None \<longrightarrow>
        \<bar>evaluateBoard b h ai\<bar>
          \<le> 16120 + 30 * \<bar>int (length (white h)) - int (length (black h))\<bar>)
   \<and> (searched s \<longrightarrow>
        (checkWin (board s) ai = None \<or> checkWin (board s) (other ai) = None)
      \<and> (checkWin (board s) ai \<noteq> None \<longrightarrow> evaluateBoard (board s) (hands s) ai = WIN)
      \<and> (checkWin (board s) (other ai) \<noteq> None \<longrightarrow>
            evaluateBoard (board s) (hands s) ai = - WIN)
      \<and> length (white (hands s)) + length (black (hands s)) \<le> 8
      \<and> (checkWin (board s) ai = None \<and> checkWin (board s) (other ai) = None \<longrightarrow>
            \<bar>evaluateBoard (board s) (hands s) ai\<bar> \<le> 16360
          \<and> - WIN < evaluateBoard (board s) (hands s) ai
          \<and> evaluateBoard (board s) (hands s) ai < WIN))
   \<and> (searched s \<and> searched t \<and> checkWin (board s) ai \<noteq> None \<and> checkWin (board t) ai = None
        \<longrightarrow> evaluateBoard (board t) (hands t) ai < evaluateBoard (board s) (hands s) ai)
   \<and> (searched s \<and> searched t \<and> checkWin (board s) (other ai) \<noteq> None
        \<and> checkWin (board t) (other ai) = None
        \<longrightarrow> evaluateBoard (board s) (hands s) ai < evaluateBoard (board t) (hands t) ai)"
proof -
  have 1: "0 < WIN" by (simp add: WIN_def)
  have 2: "evaluateBoard b h ai = WIN" if "checkWin b ai \<noteq> None" for b h
    using that by (simp add: evaluateBoard_def Let_def)
  have 3: "evaluateBoard b h ai = - WIN" if "checkWin b ai = None" "checkWin b (other ai) \<noteq> None"
    for b h
    using that by (simp add: evaluateBoard_def Let_def)
  have 4: "\<bar>evaluateBoard b h ai\<bar>
          \<le> 16120 + 30 * \<bar>int (length (white h)) - int (length (black h))\<bar>"
    if "checkWin b ai = None" "checkWin b (other ai) = None" for b h
    using heuristic_bound[OF that, of h] by (simp add: hands_diff)
  have 5: "evaluateBoard (board s) (hands s) ai = - WIN"
    if "searched s" "checkWin (board s) (other ai) \<noteq> None" for s
    using searched_one_line[OF that(1), of ai] that(2) 3 by blast
  have 6: "\<bar>evaluateBoard (board s) (hands s) ai\<bar> \<le> 16360
          \<and> - WIN < evaluateBoard (board s) (hands s) ai
          \<and> evaluateBoard (board s) (hands s) ai < WIN"
    if "searched s" "checkWin (board s) ai = None" "checkWin (board s) (other ai) = None" for s
    unfolding WIN_def using 4[OF that(2,3)] searched_hands[OF that(1)]
    by (rule small_hands_arith)
  have 7: "evaluateBoard (board t) (hands t) ai < evaluateBoard (board s) (hands s) ai"
    if "searched s" "searched t" "checkWin (board s) ai \<noteq> None" "checkWin (board t) ai = None"
  proof (cases "checkWin (board t) (other ai) = None")
    case True
    from 6[OF that(2,4) True] 2[OF that(3)] show ?thesis by simp
  next
    case False
    from 3[OF that(4) False] 2[OF that(3)] 1 show ?thesis by simp
  qed
  have 8: "evaluateBoard (board s) (hands s) ai < evaluateBoard (board t) (hands t) ai"
    if "searched s" "searched t" "checkWin (board s) (other ai) \<noteq> None"
      "checkWin (board t) (other ai) = None"
  proof (cases "checkWin (board t) ai = None")
    case True
    from 6[OF that(2) True that(4)] 5[OF that(1,3)] show ?thesis by simp
  next
    case False
    from 2[OF False] 5[OF that(1,3)] 1 show ?thesis by simp
  qed
  have 9: "(checkWin (board s) ai = None \<or> checkWin (board s) (other ai) = None)
      \<and> (checkWin (board s) ai \<noteq> None \<longrightarrow> evaluateBoard (board s) (hands s) ai = WIN)
      \<and> (checkWin (board s) (other ai) \<noteq> None \<longrightarrow>
            evaluateBoard (board s) (hands s) ai = - WIN)
      \<and> length (white (hands s)) + length (black (hands s)) \<le> 8
      \<and> (checkWin (board s) ai = None \<and> checkWin (board s) (other ai) = None \<longrightarrow>
            \<bar>evaluateBoard (board s) (hands s) ai\<bar> \<le> 16360
          \<and> - WIN < evaluateBoard (board s) (hands s) ai
          \<and> evaluateBoard (board s) (hands s) ai < WIN)"
    if sr: "searched s"
    using searched_one_line[OF sr, of ai] searched_hands[OF sr] 2[of "board s" "hands s"]
      5[OF sr] 6[OF sr]
    by blast
  have a: "checkWin b ai \<noteq> None \<longrightarrow> evaluateBoard b h ai = WIN" using 2 by blast
  have b: "checkWin b ai = None \<and> checkWin b (other ai) \<noteq> None \<longrightarrow> evaluateBoard b h ai = - WIN"
    using 3 by blast
  have c: "checkWin b ai = None \<and> checkWin b (other ai) = None \<longrightarrow>
        \<bar>evaluateBoard b h ai\<bar>
          \<le> 16120 + 30 * \<bar>int (length (white h)) - int (length (black h))\<bar>"
    using 4 by blast
  from 9 have d: "searched s \<longrightarrow>
        (checkWin (board s) ai = None \<or> checkWin (board s) (other ai) = None)
      \<and> (checkWin (board s) ai \<noteq> None \<longrightarrow> evaluateBoard (board s) (hands s) ai = WIN)
      \<and> (checkWin (board s) (other ai) \<noteq> None \<longrightarrow>
            evaluateBoard (board s) (hands s) ai = - WIN)
      \<and> length (white (hands s)) + length (black (hands s)) \<le> 8
      \<and> (checkWin (board s) ai = None \<and> checkWin (board s) (other ai) = None \<longrightarrow>
            \<bar>evaluateBoard (board s) (hands s) ai\<bar> \<le> 16360
          \<and> - WIN < evaluateBoard (board s) (hands s) ai
          \<and> evaluateBoard (board s) (hands s) ai < WIN)"
    by (rule impI)
  have e: "searched s \<and> searched t \<and> checkWin (board s) ai \<noteq> None \<and> checkWin (board t) ai = None
        \<longrightarrow> evaluateBoard (board t) (hands t) ai < evaluateBoard (board s) (hands s) ai"
    using 7 by blast
  have f: "searched s \<and> searched t \<and> checkWin (board s) (other ai) \<noteq> None
        \<and> checkWin (board t) (other ai) = None
        \<longrightarrow> evaluateBoard (board s) (hands s) ai < evaluateBoard (board t) (hands t) ai"
    using 8 by blast
  from 1 a b c d e f show ?thesis by (intro conjI)
qed

theorem evaluateBoard_dominance_witness:
  "evaluateBoard fourInRow \<lparr>white = [], black = [ROOK, KNIGHT, BISHOP]\<rparr> White = 100000
   \<and> evaluateBoard fourInRow \<lparr>white = [], black = [ROOK, KNIGHT, BISHOP]\<rparr> Black = - 100000
   \<and> - 100000 < evaluateBoard (board (projr (simulateMove start (placeMove ROOK 0 0))))
                    (hands (projr (simulateMove start (placeMove ROOK 0 0)))) Black
   \<and> evaluateBoard (board (projr (simulateMove start (placeMove ROOK 0 0))))
        (hands (projr (simulateMove start (placeMove ROOK 0 0)))) Black < 100000"
proof -
  let ?h = "\<lparr>white = [], black = [ROOK, KNIGHT, BISHOP]\<rparr>"
  let ?m = "placeMove ROOK 0 0"
  let ?c = "projr (simulateMove start ?m)"
  have w: "checkWin fourInRow White \<noteq> None" "checkWin fourInRow Black = None"
    "checkWin fourInRow (other Black) \<noteq> None"
    by code_simp+
  from evaluateBoard_dominance[of fourInRow White ?h] w(1)
  have a: "evaluateBoard fourInRow ?h White = WIN" by blast
  from evaluateBoard_dominance[of fourInRow Black ?h] w(2,3)
  have b: "evaluateBoard fourInRow ?h Black = - WIN" by blast
  have r: "reachable start" unfolding start_def by (rule reachable.reset)
  have n: "winner start = None" by (simp add: start_def resetGame_def Let_def)
  have wf: "wf_board (board start)" unfolding start_def by (rule reset_invariants)
  from getLegalMoves_ok[OF wf] obtain ms where
    ms: "getLegalMoves start (currentPlayer start) = Some (Inr ms)" by blast
  have "case getLegalMoves start (currentPlayer start) of
          Some (Inr ms) \<Rightarrow> ?m \<in> set ms
        | _ \<Rightarrow> False"
    by code_simp
  with ms have mem: "?m \<in> set ms" by simp
  have "\<not> isl (simulateMove start ?m)" by code_simp
  then have sim: "simulateMove start ?m = Inr ?c" by (rule not_isl_projr)
  from r n ms mem sim have sc: "searched ?c" by (rule searched.first)
  have l: "checkWin (board ?c) Black = None" "checkWin (board ?c) (other Black) = None"
    by code_simp+
  from evaluateBoard_dominance[of _ Black _ ?c] sc l
  have c: "- WIN < evaluateBoard (board ?c) (hands ?c) Black
         \<and> evaluateBoard (board ?c) (hands ?c) Black < WIN"
    by blast
  from a b c show ?thesis by (simp add: WIN_def)
qed

section \<open>Alpha-beta pruning\<close>

lemma NegInf_least: "NegInf \<le> x" by (cases x) simp_all
lemma PosInf_greatest: "x \<le> PosInf" by (cases x) simp_all

lemma agrees_refl: "agrees a b x x"
  by (simp add: agrees_def)

lemma agrees_full: "agrees NegInf PosInf R V \<Longrightarrow> R = V"
  unfolding agrees_def
  by (metis NegInf_least PosInf_greatest antisym_conv2 order_antisym_conv)

lemma agrees_max_step:
  assumes "agrees a b M Mx" "max a M < b" "agrees (max a M) b e v"
  shows "agrees a b (max M e) (max Mx v)"
  using assms unfolding agrees_def
  by (smt (verit, best) max.absorb1 max.absorb2 max.bounded_iff max_less_iff_conj nle_le
        not_le_imp_less order.strict_iff_not order_less_le_trans)

lemma agrees_max_cut:
  assumes "agrees a b M Mx" "b \<le> max a M" "a < b" "Mx \<le> V"
  shows "agrees a b M V"
  using assms unfolding agrees_def
  by (smt (verit, best) max.absorb1 max.absorb2 max.bounded_iff max_less_iff_conj nle_le
        not_le_imp_less order.strict_iff_not order_less_le_trans order.trans)

lemma agrees_min_step:
  assumes "agrees a b M Mx" "a < min b M" "agrees a (min b M) e v"
  shows "agrees a b (min M e) (min Mx v)"
  using assms unfolding agrees_def
  by (smt (verit, best) min.absorb1 min.absorb2 min.bounded_iff min_less_iff_conj nle_le
        not_le_imp_less order.strict_iff_not order_less_le_trans order_le_less_trans)

lemma agrees_min_cut:
  assumes "agrees a b M Mx" "min b M \<le> a" "a < b" "V \<le> Mx"
  shows "agrees a b M V"
  using assms unfolding agrees_def
  by (smt (verit, best) min.absorb1 min.absorb2 min.bounded_iff min_less_iff_conj nle_le
        not_le_imp_less order.strict_iff_not order_less_le_trans order.trans)

subsection \<open>The loops of the exhaustive search return\<close>

lemma andThen_Some [simp]: "andThen (Some (Inr x)) f = f x"
  by (simp add: andThen_def)

lemma exMaxLoop_total:
  assumes ex: "\<And>c. wf_board (board c) \<Longrightarrow> \<exists>V. exhaustive c d False ai = Some (Inr V)"
    and "wf_board (board s)" "\<forall>m \<in> set ms. gridMove m"
  shows "\<exists>V. exMaxLoop s d ms Mx ai = Some (Inr V) \<and> Mx \<le> V"
  using assms(3)
proof (induction ms arbitrary: Mx)
  case Nil
  then show ?case by simp
next
  case (Cons m ms)
  from Cons.prems have "gridMove m" by simp
  from simulateMove_ok[OF assms(2) this] obtain c where
    c: "simulateMove s m = Inr c" "wf_board (board c)" by blast
  from ex[OF c(2)] obtain v where v: "exhaustive c d False ai = Some (Inr v)" by blast
  from Cons.IH[of "max Mx v"] Cons.prems obtain V where
    "exMaxLoop s d ms (max Mx v) ai = Some (Inr V)" "max Mx v \<le> V" by auto
  with c v show ?case by simp
qed

lemma exMinLoop_total:
  assumes ex: "\<And>c. wf_board (board c) \<Longrightarrow> \<exists>V. exhaustive c d True ai = Some (Inr V)"
    and "wf_board (board s)" "\<forall>m \<in> set ms. gridMove m"
  shows "\<exists>V. exMinLoop s d ms Mx ai = Some (Inr V) \<and> V \<le> Mx"
  using assms(3)
proof (induction ms arbitrary: Mx)
  case Nil
  then show ?case by simp
next
  case (Cons m ms)
  from Cons.prems have "gridMove m" by simp
  from simulateMove_ok[OF assms(2) this] obtain c where
    c: "simulateMove s m = Inr c" "wf_board (board c)" by blast
  from ex[OF c(2)] obtain v where v: "exhaustive c d True ai = Some (Inr v)" by blast
  from Cons.IH[of "min Mx v"] Cons.prems obtain V where
    "exMinLoop s d ms (min Mx v) ai = Some (Inr V)" "V \<le> min Mx v" by auto
  with c v show ?case by simp
qed

subsection \<open>The pruned loops against the exhaustive ones\<close>

lemma maxLoop_agrees:
  assumes ih: "\<And>c a b. wf_board (board c) \<Longrightarrow> a < b \<Longrightarrow>
             \<exists>R V. minimax c d a b False ai = Some (Inr R)
                  \<and> exhaustive c d False ai = Some (Inr V) \<and> agrees a b R V"
    and wf: "wf_board (board s)"
    and "\<forall>m \<in> set ms. gridMove m" "agrees a0 b M Mx" "max a0 M < b"
  shows "\<exists>R V. maxLoop s d ms M (max a0 M) b ai = Some (Inr R)
              \<and> exMaxLoop s d ms Mx ai = Some (Inr V) \<and> agrees a0 b R V"
  using assms(3-)
proof (induction ms arbitrary: M Mx)
  case Nil
  then show ?case by simp
next
  case (Cons m ms)
  from Cons.prems have "gridMove m" and rest: "\<forall>m \<in> set ms. gridMove m" by simp_all
  from simulateMove_ok[OF wf this(1)] obtain c where
    c: "simulateMove s m = Inr c" "wf_board (board c)" by blast
  from ih[OF c(2) Cons.prems(3)] obtain e v where
    e: "minimax c d (max a0 M) b False ai = Some (Inr e)"
    and v: "exhaustive c d False ai = Some (Inr v)"
    and ev: "agrees (max a0 M) b e v" by blast
  have step: "agrees a0 b (max M e) (max Mx v)"
    using Cons.prems(2,3) ev by (rule agrees_max_step)
  have al: "max (max a0 M) e = max a0 (max M e)" by (simp add: max.assoc)
  have exh: "\<exists>V. exhaustive c' d False ai = Some (Inr V)" if w: "wf_board (board c')" for c'
  proof -
    have "NegInf < PosInf" by (simp add: less_num_def)
    from ih[OF w this] show ?thesis by blast
  qed
  show ?case
  proof (cases "b \<le> max a0 (max M e)")
    case True
    from exMaxLoop_total[OF exh wf rest, of "max Mx v"] obtain V where
      V: "exMaxLoop s d ms (max Mx v) ai = Some (Inr V)" "max Mx v \<le> V" by blast
    from Cons.prems(3) have ab: "a0 < b" by simp
    have "agrees a0 b (max M e) V" by (rule agrees_max_cut[OF step True ab V(2)])
    with c e v V(1) True al show ?thesis by (simp add: Let_def)
  next
    case False
    then have "max a0 (max M e) < b" by (rule not_le_imp_less)
    from Cons.IH[OF rest step this] obtain R V where
      "maxLoop s d ms (max M e) (max a0 (max M e)) b ai = Some (Inr R)"
      "exMaxLoop s d ms (max Mx v) ai = Some (Inr V)" "agrees a0 b R V" by blast
    with c e v False al show ?thesis by (simp add: Let_def)
  qed
qed

lemma minLoop_agrees:
  assumes ih: "\<And>c a b. wf_board (board c) \<Longrightarrow> a < b \<Longrightarrow>
             \<exists>R V. minimax c d a b True ai = Some (Inr R)
                  \<and> exhaustive c d True ai = Some (Inr V) \<and> agrees a b R V"
    and wf: "wf_board (board s)"
    and "\<forall>m \<in> set ms. gridMove m" "agrees a b0 M Mx" "a < min b0 M"
  shows "\<exists>R V. minLoop s d ms M a (min b0 M) ai = Some (Inr R)
              \<and> exMinLoop s d ms Mx ai = Some (Inr V) \<and> agrees a b0 R V"
  using assms(3-)
proof (induction ms arbitrary: M Mx)
  case Nil
  then show ?case by simp
next
  case (Cons m ms)
  from Cons.prems have "gridMove m" and rest: "\<forall>m \<in> set ms. gridMove m" by simp_all
  from simulateMove_ok[OF wf this(1)] obtain c where
    c: "simulateMove s m = Inr c" "wf_board (board c)" by blast
  from ih[OF c(2) Cons.prems(3)] obtain e v where
    e: "minimax c d a (min b0 M) True ai = Some (Inr e)"
    and v: "exhaustive c d True ai = Some (Inr v)"
    and ev: "agrees a (min b0 M) e v" by blast
  have step: "agrees a b0 (min M e) (min Mx v)"
    using Cons.prems(2,3) ev by (rule agrees_min_step)
  have be: "min (min b0 M) e = min b0 (min M e)" by (simp add: min.assoc)
  have exh: "\<exists>V. exhaustive c' d True ai = Some (Inr V)" if w: "wf_board (board c')" for c'
  proof -
    have "NegInf < PosInf" by (simp add: less_num_def)
    from ih[OF w this] show ?thesis by blast
  qed
  show ?case
  proof (cases "min b0 (min M e) \<le> a")
    case True
    from exMinLoop_total[OF exh wf rest, of "min Mx v"] obtain V where
      V: "exMinLoop s d ms (min Mx v) ai = Some (Inr V)" "V \<le> min Mx v" by blast
    from Cons.prems(3) have ab: "a < b0" by simp
    have "agrees a b0 (min M e) V" by (rule agrees_min_cut[OF step True ab V(2)])
    with c e v V(1) True be show ?thesis by (simp add: Let_def)
  next
    case False
    then have "a < min b0 (min M e)" by (rule not_le_imp_less)
    from Cons.IH[OF rest step this] obtain R V where
      "minLoop s d ms (min M e) a (min b0 (min M e)) ai = Some (Inr R)"
      "exMinLoop s d ms (min Mx v) ai = Some (Inr V)" "agrees a b0 R V" by blast
    with c e v False be show ?thesis by (simp add: Let_def)
  qed
qed

subsection \<open>The pruned search against the exhaustive one\<close>

lemma minimax_agrees:
  assumes "wf_board (board s)" "a < b"
  shows "\<exists>R V. minimax s d a b isMax ai = Some (Inr R)
              \<and> exhaustive s d isMax ai = Some (Inr V) \<and> agrees a b R V"
  using assms
proof (induction d arbitrary: s a b isMax)
  case 0
  then show ?case by (simp add: minimax.simps exhaustive.simps agrees_refl)
next
  case (Suc d)
  show ?case
  proof (cases "checkWin (board s) White \<noteq> None \<or> checkWin (board s) Black \<noteq> None")
    case True
    then show ?thesis
      by (subst minimax.simps, subst exhaustive.simps) (auto simp: agrees_refl)
  next
    case False
    from getLegalMoves_ok[OF Suc.prems(1)] obtain ms where
      ms: "getLegalMoves s (currentPlayer s) = Some (Inr ms)" "\<forall>m \<in> set ms. gridMove m"
      by blast
    show ?thesis
    proof (cases "ms = []")
      case True
      with False ms show ?thesis
        by (subst minimax.simps, subst exhaustive.simps) (simp add: agrees_refl)
    next
      case nonempty: False
      show ?thesis
      proof (cases isMax)
        case True
        have "\<exists>R V. maxLoop s d ms NegInf (max a NegInf) b ai = Some (Inr R)
              \<and> exMaxLoop s d ms NegInf ai = Some (Inr V) \<and> agrees a b R V"
        proof (rule maxLoop_agrees)
          show "\<exists>R V. minimax c d a' b' False ai = Some (Inr R)
                  \<and> exhaustive c d False ai = Some (Inr V) \<and> agrees a' b' R V"
            if "wf_board (board c)" "a' < b'" for c a' b'
            using that by (rule Suc.IH)
          show "wf_board (board s)" by (rule Suc.prems(1))
          show "\<forall>m \<in> set ms. gridMove m" by (rule ms(2))
          show "agrees a b NegInf NegInf" by (rule agrees_refl)
          show "max a NegInf < b" using Suc.prems(2) by (simp add: max.absorb1 NegInf_least)
        qed
        moreover have "max a NegInf = a" by (simp add: max.absorb1 NegInf_least)
        ultimately show ?thesis using False ms(1) nonempty True
          by (subst minimax.simps, subst exhaustive.simps) simp
      next
        case isMin: False
        have "\<exists>R V. minLoop s d ms PosInf a (min b PosInf) ai = Some (Inr R)
              \<and> exMinLoop s d ms PosInf ai = Some (Inr V) \<and> agrees a b R V"
        proof (rule minLoop_agrees)
          show "\<exists>R V. minimax c d a' b' True ai = Some (Inr R)
                  \<and> exhaustive c d True ai = Some (Inr V) \<and> agrees a' b' R V"
            if "wf_board (board c)" "a' < b'" for c a' b'
            using that by (rule Suc.IH)
          show "wf_board (board s)" by (rule Suc.prems(1))
          show "\<forall>m \<in> set ms. gridMove m" by (rule ms(2))
          show "agrees a b PosInf PosInf" by (rule agrees_refl)
          show "a < min b PosInf" using Suc.prems(2) by (simp add: min.absorb1 PosInf_greatest)
        qed
        moreover have "min b PosInf = b" by (simp add: min.absorb1 PosInf_greatest)
        ultimately show ?thesis using False ms(1) nonempty isMin
          by (subst minimax.simps, subst exhaustive.simps) simp
      qed
    qed
  qed
qed

lemma minimax_exact:
  assumes "wf_board (board s)"
  shows "\<exists>v. minimax s d NegInf PosInf isMax ai = Some (Inr v)
            \<and> exhaustive s d isMax ai = Some (Inr v)"
proof -
  have "NegInf < PosInf" by (simp add: less_num_def)
  from minimax_agrees[OF assms this] obtain R V where
    "minimax s d NegInf PosInf isMax ai = Some (Inr R)"
    "exhaustive s d isMax ai = Some (Inr V)" "agrees NegInf PosInf R V" by blast
  with agrees_full show ?thesis by blast
qed


subsection \<open>Hard mode picks a move of best exhaustive value\<close>

lemma exhaustiveValue_minimax:
  assumes "wf_board (board s)" "gridMove m"
  shows "\<exists>c v. simulateMove s m = Inr c
               \<and> minimax c 3 NegInf PosInf False (currentPlayer s) = Some (Inr v)
               \<and> exhaustiveValue s m = Some (Inr v)"
proof -
  from simulateMove_ok[OF assms] obtain c where
    c: "simulateMove s m = Inr c" "wf_board (board c)" by blast
  from minimax_exact[OF c(2)] obtain v where
    "minimax c 3 NegInf PosInf False (currentPlayer s) = Some (Inr v)"
    "exhaustive c 3 False (currentPlayer s) = Some (Inr v)" by blast
  with c(1) show ?thesis by (simp add: exhaustiveValue_def)
qed

lemma hardLoop_best:
  assumes wf: "wf_board (board s)" and "\<forall>m \<in> set ms. gridMove m"
  shows "\<exists>r. hardLoop s (currentPlayer s) ms best bv = Some (Inr r) \<and>
        ((r = best \<and> (\<forall>m \<in> set ms. \<exists>v. exhaustiveValue s m = Some (Inr v) \<and> v \<le> bv))
         \<or> (r \<in> set ms \<and> (\<exists>vr. exhaustiveValue s r = Some (Inr vr) \<and> bv < vr
                \<and> (\<forall>m \<in> set ms. \<exists>v. exhaustiveValue s m = Some (Inr v) \<and> v \<le> vr))))"
  using assms(2)
proof (induction ms arbitrary: best bv)
  case Nil
  then show ?case by simp
next
  case (Cons m ms)
  from Cons.prems have "gridMove m" and rest: "\<forall>m \<in> set ms. gridMove m" by simp_all
  from exhaustiveValue_minimax[OF wf this(1)] obtain c vm where
    c: "simulateMove s m = Inr c"
    and mm: "minimax c 3 NegInf PosInf False (currentPlayer s) = Some (Inr vm)"
    and xv: "exhaustiveValue s m = Some (Inr vm)" by blast
  show ?case
  proof (cases "vm > bv")
    case True
    with c mm have step: "hardLoop s (currentPlayer s) (m # ms) best bv
        = hardLoop s (currentPlayer s) ms m vm" by simp
    from Cons.IH[OF rest, of m vm] obtain r where
      r: "hardLoop s (currentPlayer s) ms m vm = Some (Inr r)"
      and alt: "(r = m \<and> (\<forall>x \<in> set ms. \<exists>v. exhaustiveValue s x = Some (Inr v) \<and> v \<le> vm))
         \<or> (r \<in> set ms \<and> (\<exists>vr. exhaustiveValue s r = Some (Inr vr) \<and> vm < vr
                \<and> (\<forall>x \<in> set ms. \<exists>v. exhaustiveValue s x = Some (Inr v) \<and> v \<le> vr)))"
      by blast
    from alt show ?thesis
    proof
      assume a: "r = m \<and> (\<forall>x \<in> set ms. \<exists>v. exhaustiveValue s x = Some (Inr v) \<and> v \<le> vm)"
      with xv True have "r \<in> set (m # ms) \<and> (\<exists>vr. exhaustiveValue s r = Some (Inr vr) \<and> bv < vr
                \<and> (\<forall>x \<in> set (m # ms). \<exists>v. exhaustiveValue s x = Some (Inr v) \<and> v \<le> vr))"
        by auto
      with step r show ?thesis by auto
    next
      assume "r \<in> set ms \<and> (\<exists>vr. exhaustiveValue s r = Some (Inr vr) \<and> vm < vr
                \<and> (\<forall>x \<in> set ms. \<exists>v. exhaustiveValue s x = Some (Inr v) \<and> v \<le> vr))"
      then obtain vr where b: "r \<in> set ms" "exhaustiveValue s r = Some (Inr vr)" "vm < vr"
        "\<forall>x \<in> set ms. \<exists>v. exhaustiveValue s x = Some (Inr v) \<and> v \<le> vr" by blast
      from True b(3) have "bv < vr" by (rule less_trans)
      moreover from b(3) have "vm \<le> vr" by (rule less_imp_le)
      ultimately have "r \<in> set (m # ms) \<and> (\<exists>vr. exhaustiveValue s r = Some (Inr vr) \<and> bv < vr
                \<and> (\<forall>x \<in> set (m # ms). \<exists>v. exhaustiveValue s x = Some (Inr v) \<and> v \<le> vr))"
        using b xv by auto
      with step r show ?thesis by auto
    qed
  next
    case False
    then have le: "vm \<le> bv" by (rule leI)
    from False c mm have step: "hardLoop s (currentPlayer s) (m # ms) best bv
        = hardLoop s (currentPlayer s) ms best bv" by simp
    from Cons.IH[OF rest, of best bv] obtain r where
      r: "hardLoop s (currentPlayer s) ms best bv = Some (Inr r)"
      and alt: "(r = best \<and> (\<forall>x \<in> set ms. \<exists>v. exhaustiveValue s x = Some (Inr v) \<and> v \<le> bv))
         \<or> (r \<in> set ms \<and> (\<exists>vr. exhaustiveValue s r = Some (Inr vr) \<and> bv < vr
                \<and> (\<forall>x \<in> set ms. \<exists>v. exhaustiveValue s x = Some (Inr v) \<and> v \<le> vr)))"
      by blast
    from alt show ?thesis
    proof
      assume "r = best \<and> (\<forall>x \<in> set ms. \<exists>v. exhaustiveValue s x = Some (Inr v) \<and> v \<le> bv)"
      with xv le have "r = best \<and> (\<forall>x \<in> set (m # ms). \<exists>v. exhaustiveValue s x = Some (Inr v) \<and> v \<le> bv)"
        by auto
      with step r show ?thesis by auto
    next
      assume "r \<in> set ms \<and> (\<exists>vr. exhaustiveValue s r = Some (Inr vr) \<and> bv < vr
                \<and> (\<forall>x \<in> set ms. \<exists>v. exhaustiveValue s x = Some (Inr v) \<and> v \<le> vr))"
      then obtain vr where b: "r \<in> set ms" "exhaustiveValue s r = Some (Inr vr)" "bv < vr"
        "\<forall>x \<in> set ms. \<exists>v. exhaustiveValue s x = Some (Inr v) \<and> v \<le> vr" by blast
      from le b(3) have "vm \<le> vr" by (simp add: order.strict_implies_order order.trans)
      then have "r \<in> set (m # ms) \<and> (\<exists>vr. exhaustiveValue s r = Some (Inr vr) \<and> bv < vr
                \<and> (\<forall>x \<in> set (m # ms). \<exists>v. exhaustiveValue s x = Some (Inr v) \<and> v \<le> vr))"
        using b xv by auto
      with step r show ?thesis by auto
    qed
  qed
qed

lemma hard_choice:
  assumes wf: "wf_board (board s)" and ms: "\<forall>m \<in> set ms. gridMove m" "ms \<noteq> []"
  shows "\<exists>best \<in> set ms. \<exists>vb. hardLoop s (currentPlayer s) ms (hd ms) NegInf = Some (Inr best)
           \<and> exhaustiveValue s best = Some (Inr vb)
           \<and> (\<forall>m \<in> set ms. \<exists>v. exhaustiveValue s m = Some (Inr v) \<and> v \<le> vb)"
proof -
  from hardLoop_best[OF wf ms(1), of "hd ms" NegInf] obtain r where
    r: "hardLoop s (currentPlayer s) ms (hd ms) NegInf = Some (Inr r)"
    and alt: "(r = hd ms \<and> (\<forall>m \<in> set ms. \<exists>v. exhaustiveValue s m = Some (Inr v) \<and> v \<le> NegInf))
         \<or> (r \<in> set ms \<and> (\<exists>vr. exhaustiveValue s r = Some (Inr vr) \<and> NegInf < vr
                \<and> (\<forall>m \<in> set ms. \<exists>v. exhaustiveValue s m = Some (Inr v) \<and> v \<le> vr)))"
    by blast
  from alt show ?thesis
  proof
    assume a: "r = hd ms \<and> (\<forall>m \<in> set ms. \<exists>v. exhaustiveValue s m = Some (Inr v) \<and> v \<le> NegInf)"
    from ms(2) have h: "hd ms \<in> set ms" by simp
    with a obtain vb where vb: "exhaustiveValue s (hd ms) = Some (Inr vb)" by blast
    have "\<forall>m \<in> set ms. \<exists>v. exhaustiveValue s m = Some (Inr v) \<and> v \<le> vb"
    proof
      fix m assume "m \<in> set ms"
      with a obtain v where "exhaustiveValue s m = Some (Inr v)" "v \<le> NegInf" by blast
      with NegInf_least[of vb] show "\<exists>v. exhaustiveValue s m = Some (Inr v) \<and> v \<le> vb"
        by (auto intro: order.trans)
    qed
    with a h r vb show ?thesis by blast
  next
    assume "r \<in> set ms \<and> (\<exists>vr. exhaustiveValue s r = Some (Inr vr) \<and> NegInf < vr
                \<and> (\<forall>m \<in> set ms. \<exists>v. exhaustiveValue s m = Some (Inr v) \<and> v \<le> vr))"
    with r show ?thesis by blast
  qed
qed

text \<open>
  C6. On a board of the grid's shape, for every depth, the search with cut-offs started
  with the window from \<open>-Infinity\<close> to \<open>Infinity\<close> returns, and returns the value the
  search without cut-offs returns. In Hard mode \<open>getCpuMove\<close> therefore returns a legal
  move whose score under the unpruned depth-3 search of the position after it is the
  best among all legal moves (and no move when there is none).
\<close>

theorem alpha_beta_exact:
  assumes "wf_board (board s)"
  shows "(\<exists>v. minimax s d NegInf PosInf isMax ai = Some (Inr v)
            \<and> exhaustive s d isMax ai = Some (Inr v))
       \<and> (difficulty s = Hard \<longrightarrow>
            (\<exists>moves. getLegalMoves s (currentPlayer s) = Some (Inr moves)
               \<and> (moves = [] \<longrightarrow> getCpuMove rnd s = Some (Inr None))
               \<and> (moves \<noteq> [] \<longrightarrow>
                    (\<exists>best \<in> set moves. \<exists>vb.
                       getCpuMove rnd s
                         = Some (Inr (Some (best\<lparr>logicFeedback := Some (hardFeedback best)\<rparr>)))
                     \<and> exhaustiveValue s best = Some (Inr vb)
                     \<and> (\<forall>m \<in> set moves. \<exists>v. exhaustiveValue s m = Some (Inr v) \<and> v \<le> vb)))))"
proof -
  have hard: "\<exists>moves. getLegalMoves s (currentPlayer s) = Some (Inr moves)
               \<and> (moves = [] \<longrightarrow> getCpuMove rnd s = Some (Inr None))
               \<and> (moves \<noteq> [] \<longrightarrow>
                    (\<exists>best \<in> set moves. \<exists>vb.
                       getCpuMove rnd s
                         = Some (Inr (Some (best\<lparr>logicFeedback := Some (hardFeedback best)\<rparr>)))
                     \<and> exhaustiveValue s best = Some (Inr vb)
                     \<and> (\<forall>m \<in> set moves. \<exists>v. exhaustiveValue s m = Some (Inr v) \<and> v \<le> vb)))"
    if h: "difficulty s = Hard"
  proof -
    from getLegalMoves_ok[OF assms] obtain ms where
      ms: "getLegalMoves s (currentPlayer s) = Some (Inr ms)" "\<forall>m \<in> set ms. gridMove m"
      by blast
    have e: "getCpuMove rnd s = Some (Inr None)" if "ms = []"
      using that ms(1) by (simp add: getCpuMove_def)
    have n: "\<exists>best \<in> set ms. \<exists>vb.
                       getCpuMove rnd s
                         = Some (Inr (Some (best\<lparr>logicFeedback := Some (hardFeedback best)\<rparr>)))
                     \<and> exhaustiveValue s best = Some (Inr vb)
                     \<and> (\<forall>m \<in> set ms. \<exists>v. exhaustiveValue s m = Some (Inr v) \<and> v \<le> vb)"
      if ne: "ms \<noteq> []"
    proof -
      from hard_choice[OF assms ms(2) ne] obtain best vb where
        b: "best \<in> set ms" "hardLoop s (currentPlayer s) ms (hd ms) NegInf = Some (Inr best)"
        "exhaustiveValue s best = Some (Inr vb)"
        "\<forall>m \<in> set ms. \<exists>v. exhaustiveValue s m = Some (Inr v) \<and> v \<le> vb" by blast
      from ms(1) ne h b(2) have "getCpuMove rnd s
          = Some (Inr (Some (best\<lparr>logicFeedback := Some (hardFeedback best)\<rparr>)))"
        by (simp add: getCpuMove_def)
      with b show ?thesis by blast
    qed
    from ms(1) e n show ?thesis by blast
  qed
  from minimax_exact[OF assms] hard show ?thesis by blast
qed

theorem alpha_beta_exact_witness:
  "minimax crowded 3 NegInf PosInf True Black = exhaustive crowded 3 True Black
   \<and> minimax crowded 0 NegInf PosInf True Black = Some (Inr (Fin 0))
   \<and> exhaustive crowded 0 True Black = Some (Inr (Fin 0))
   \<and> getCpuMove 0 crowded \<noteq> Some (Inr None)"
proof -
  have wf: "wf_board (board crowded)" by code_simp
  have h: "difficulty crowded = Hard" by code_simp
  from alpha_beta_exact[OF wf, of 3 True Black 0]
  have a: "minimax crowded 3 NegInf PosInf True Black = exhaustive crowded 3 True Black"
    by auto
  have z: "exhaustive crowded 0 True Black = Some (Inr (Fin 0))" by code_simp
  from alpha_beta_exact[OF wf, of 0 True Black 0] z
  have b: "minimax crowded 0 NegInf PosInf True Black = Some (Inr (Fin 0))" by auto
  have l: "map_option (map_sum id length) (getLegalMoves crowded (currentPlayer crowded)) = Some (Inr 9)"
    by code_simp
  from alpha_beta_exact[OF wf, of 0 True Black 0] h l
  have c: "getCpuMove 0 crowded \<noteq> Some (Inr None)" by auto
  from a b z c show ?thesis by blast
qed

section \<open>Which choices depend on the random draw\<close>

lemma someWins_ok:
  assumes "wf_board (board sim)" "\<forall>m \<in> set oms. gridMove m"
  shows "\<exists>w. someWins sim opp oms = Inr w"
  using assms(2)
proof (induction oms)
  case Nil
  then show ?case by auto
next
  case (Cons m oms)
  from Cons.prems have "gridMove m" by simp
  from simulateMove_ok[OF assms(1) this] obtain c where c: "simulateMove sim m = Inr c" by blast
  from Cons have ih: "\<exists>w. someWins sim opp oms = Inr w" by simp
  show ?case
  proof (cases "checkWin (board c) opp \<noteq> None")
    case True
    with c have "someWins sim opp (m # oms) = Inr True" by simp
    then show ?thesis by blast
  next
    case False
    with c have "someWins sim opp (m # oms) = someWins sim opp oms" by simp
    with ih show ?thesis by simp
  qed
qed

lemma blockScan_ok:
  assumes "wf_board (board s)" "\<forall>m \<in> set ms. gridMove m"
  shows "blockScan s opp ms = Some (Inr ())"
  using assms(2)
proof (induction ms)
  case Nil
  then show ?case by simp
next
  case (Cons m ms)
  from Cons.prems have "gridMove m" by simp
  from simulateMove_ok[OF assms(1) this] obtain c where
    c: "simulateMove s m = Inr c" "wf_board (board c)" by blast
  from getLegalMoves_ok[OF c(2)] obtain oms where
    oms: "getLegalMoves c opp = Some (Inr oms)" "\<forall>m \<in> set oms. gridMove m" by blast
  from someWins_ok[OF c(2) oms(2)] obtain w where "someWins c opp oms = Inr w" by blast
  with c oms Cons show ?case by simp
qed

lemma getLegalMoves_frame:
  assumes "board s = board s'" "hands s = hands s'" "pawnDirections s = pawnDirections s'"
  shows "getLegalMoves s p = getLegalMoves s' p"
proof -
  have "pieceMove s pc tp f t = pieceMove s' pc tp f t" for pc tp f t
    by (cases "ptype pc") (simp_all add: pieceMove_def assms)
  then have "isValidMove s pc f t = isValidMove s' pc f t" for pc f t
    using assms by (simp add: isValidMove_def cong: sum.case_cong if_cong)
  then have "targetMoves s pc i j = targetMoves s' pc i j" for pc i j
    using assms by (simp add: targetMoves_def cong: option.case_cong sum.case_cong if_cong)
  then have "boardMoves s p = boardMoves s' p"
    using assms by (simp add: boardMoves_def cong: option.case_cong sum.case_cong if_cong)
  with assms show ?thesis
    by (simp add: getLegalMoves_def cong: option.case_cong sum.case_cong)
qed

lemma mediumMove_fallback:
  assumes "wf_board (board s)" "\<forall>m \<in> set ms. gridMove m"
    and "findWin s (currentPlayer s) ms = Inr None"
    and "findBlock (board s) (other (currentPlayer s)) ms getLines = None"
    and "captureMoves (board s) ms = []"
  shows "mediumMove rnd s ms = Some (Inr (Some ((randomMove rnd ms)\<lparr>logicFeedback :=
            Some ''CPU (Medium): No immediate threats, moving strategically.''\<rparr>)))"
  using assms(3-) blockScan_ok[OF assms(1,2)]
  by (simp add: mediumMove_def Let_def)


text \<open>
  C7, as the code has it. Medium mode draws its move at random when it finds no winning
  move, no threat to block and no capture: in the position after White's first placement
  the draws 0 and 1/2 give Black different moves.
\<close>

theorem medium_deterministic_counterexample:
  "difficulty mediumReply = Medium
   \<and> getCpuMove 0 mediumReply \<noteq> getCpuMove (1 / 2) mediumReply"
proof -
  have wf: "wf_board (board mediumReply)" by code_simp
  from getLegalMoves_ok[OF wf] obtain ms where
    ms: "getLegalMoves mediumReply (currentPlayer mediumReply) = Some (Inr ms)"
    "\<forall>m \<in> set ms. gridMove m" by blast
  have "case getLegalMoves mediumReply (currentPlayer mediumReply) of
          Some (Inr ms) \<Rightarrow>
            findWin mediumReply (currentPlayer mediumReply) ms = Inr None
          \<and> findBlock (board mediumReply) (other (currentPlayer mediumReply)) ms getLines = None
          \<and> captureMoves (board mediumReply) ms = []
          \<and> length ms = 60 \<and> pieceType (ms ! 0) \<noteq> pieceType (ms ! 30)
        | _ \<Rightarrow> False"
    by code_simp
  with ms(1) have f: "findWin mediumReply (currentPlayer mediumReply) ms = Inr None"
    "findBlock (board mediumReply) (other (currentPlayer mediumReply)) ms getLines = None"
    "captureMoves (board mediumReply) ms = []" "length ms = 60"
    "pieceType (ms ! 0) \<noteq> pieceType (ms ! 30)"
    by simp_all
  have d: "difficulty mediumReply = Medium" by code_simp
  have r: "randomMove 0 ms = ms ! 0" "randomMove (1 / 2) ms = ms ! 30"
    by (simp_all add: randomMove_def f(4))
  from f(4) have ne: "ms \<noteq> []" by auto
  have "getCpuMove rnd mediumReply = Some (Inr (Some ((randomMove rnd ms)\<lparr>logicFeedback :=
            Some ''CPU (Medium): No immediate threats, moving strategically.''\<rparr>)))" for rnd
    using mediumMove_fallback[OF wf ms(2) f(1,2,3), of rnd] ms(1) d ne
    by (simp add: getCpuMove_def)
  then have "getCpuMove 0 mediumReply \<noteq> getCpuMove (1 / 2) mediumReply"
    using r f(5) by (auto dest: arg_cong[where f = pieceType])
  with d show ?thesis by blast
qed

text \<open>
  C7, amended. The legal moves are a function of the board, the hands and the pawn
  directions alone, and on a board of the grid's shape the generator returns. The move
  chosen in Hard mode does not depend on the random draw. The move chosen in Medium mode
  does not depend on it when some move wins at once, or some threat can be blocked, or
  some move captures; otherwise Medium mode returns the move the draw selects, as Easy
  mode always does.
\<close>

theorem choice_determinism:
  "(board s = board s' \<and> hands s = hands s' \<and> pawnDirections s = pawnDirections s'
      \<longrightarrow> getLegalMoves s p = getLegalMoves s' p)
   \<and> (wf_board (board s) \<longrightarrow> (\<exists>ms. getLegalMoves s p = Some (Inr ms)))
   \<and> (difficulty s = Hard \<longrightarrow> getCpuMove r1 s = getCpuMove r2 s)
   \<and> (difficulty s = Medium \<and> getLegalMoves s (currentPlayer s) = Some (Inr ms)
        \<and> (findWin s (currentPlayer s) ms \<noteq> Inr None
           \<or> findBlock (board s) (other (currentPlayer s)) ms getLines \<noteq> None
           \<or> captureMoves (board s) ms \<noteq> [])
      \<longrightarrow> getCpuMove r1 s = getCpuMove r2 s)
   \<and> (difficulty s = Medium \<and> wf_board (board s)
        \<and> getLegalMoves s (currentPlayer s) = Some (Inr ms) \<and> ms \<noteq> []
        \<and> findWin s (currentPlayer s) ms = Inr None
        \<and> findBlock (board s) (other (currentPlayer s)) ms getLines = None
        \<and> captureMoves (board s) ms = []
      \<longrightarrow> getCpuMove r1 s = Some (Inr (Some ((randomMove r1 ms)\<lparr>logicFeedback :=
            Some ''CPU (Medium): No immediate threats, moving strategically.''\<rparr>))))"
proof -
  have 1: "getLegalMoves s p = getLegalMoves s' p"
    if "board s = board s' \<and> hands s = hands s' \<and> pawnDirections s = pawnDirections s'"
    using that by (intro getLegalMoves_frame) simp_all
  have 2: "\<exists>ms. getLegalMoves s p = Some (Inr ms)" if "wf_board (board s)"
    using getLegalMoves_ok[OF that] by blast
  have 3: "getCpuMove r1 s = getCpuMove r2 s" if "difficulty s = Hard"
    using that by (simp add: getCpuMove_def cong: if_cong)
  have 4: "getCpuMove r1 s = getCpuMove r2 s"
    if h: "difficulty s = Medium" "getLegalMoves s (currentPlayer s) = Some (Inr ms)"
      "findWin s (currentPlayer s) ms \<noteq> Inr None
       \<or> findBlock (board s) (other (currentPlayer s)) ms getLines \<noteq> None
       \<or> captureMoves (board s) ms \<noteq> []"
  proof -
    have "mediumMove r1 s ms = mediumMove r2 s ms"
    proof (cases "findWin s (currentPlayer s) ms")
      case (Inl e)
      then show ?thesis by (simp add: mediumMove_def Let_def andThen_def)
    next
      case (Inr w)
      show ?thesis
      proof (cases w)
        case (Some m)
        with Inr show ?thesis by (simp add: mediumMove_def Let_def)
      next
        case None
        let ?body = "\<lambda>r. (case findBlock (board s) (other (currentPlayer s)) ms getLines of
                   Some m \<Rightarrow> Some (Inr (Some m))
                 | None \<Rightarrow>
                     (case captureMoves (board s) ms of
                        m # ms' \<Rightarrow>
                          Some (Inr (Some (m\<lparr>logicFeedback :=
                                  Some ''CPU (Medium): Prioritizing piece capture.''\<rparr>)))
                      | [] \<Rightarrow>
                          Some (Inr (Some ((randomMove r ms)\<lparr>logicFeedback :=
                                  Some ''CPU (Medium): No immediate threats, moving strategically.''\<rparr>)))))"
        from Inr None h(3) have "findBlock (board s) (other (currentPlayer s)) ms getLines \<noteq> None
          \<or> captureMoves (board s) ms \<noteq> []" by simp
        then have eq: "?body r1 = ?body r2"
          by (auto split: option.splits list.splits)
        have mm: "mediumMove r s ms
            = andThen (blockScan s (other (currentPlayer s)) ms) (\<lambda>u. ?body r)" for r
          using Inr None by (simp add: mediumMove_def Let_def)
        show ?thesis unfolding mm eq ..
      qed
    qed
    with h(1,2) show ?thesis by (simp add: getCpuMove_def)
  qed
  have 5: "getCpuMove r1 s = Some (Inr (Some ((randomMove r1 ms)\<lparr>logicFeedback :=
            Some ''CPU (Medium): No immediate threats, moving strategically.''\<rparr>)))"
    if h: "difficulty s = Medium" "wf_board (board s)"
      "getLegalMoves s (currentPlayer s) = Some (Inr ms)" "ms \<noteq> []"
      "findWin s (currentPlayer s) ms = Inr None"
      "findBlock (board s) (other (currentPlayer s)) ms getLines = None"
      "captureMoves (board s) ms = []"
  proof -
    from getLegalMoves_ok[OF h(2), of "currentPlayer s"] h(3)
    have g: "\<forall>m \<in> set ms. gridMove m" by auto
    from mediumMove_fallback[OF h(2) g h(5,6,7), of r1] h(1,3,4) show ?thesis
      by (simp add: getCpuMove_def)
  qed
  from 1 2 3 4 5 show ?thesis by blast
qed

theorem choice_determinism_witness:
  "getCpuMove 0 crowded = getCpuMove (1 / 2) crowded
   \<and> getCpuMove 0 crowdedMedium = getCpuMove (1 / 2) crowdedMedium
   \<and> getLegalMoves crowdedMedium Black = getLegalMoves crowded Black"
proof -
  have h: "difficulty crowded = Hard" by code_simp
  from choice_determinism[of crowded crowded Black 0 "1 / 2"] h
  have a: "getCpuMove 0 crowded = getCpuMove (1 / 2) crowded" by blast
  have wf: "wf_board (board crowdedMedium)" by code_simp
  from getLegalMoves_ok[OF wf] obtain ms where
    ms: "getLegalMoves crowdedMedium (currentPlayer crowdedMedium) = Some (Inr ms)" by blast
  have "case getLegalMoves crowdedMedium (currentPlayer crowdedMedium) of
          Some (Inr ms) \<Rightarrow> captureMoves (board crowdedMedium) ms \<noteq> []
        | _ \<Rightarrow> False"
    by code_simp
  with ms have c: "captureMoves (board crowdedMedium) ms \<noteq> []" by simp
  have m: "difficulty crowdedMedium = Medium" by code_simp
  from choice_determinism[of crowdedMedium crowdedMedium Black 0 "1 / 2" ms] m ms c
  have b: "getCpuMove 0 crowdedMedium = getCpuMove (1 / 2) crowdedMedium" by blast
  have f: "board crowdedMedium = board crowded \<and> hands crowdedMedium = hands crowded
     \<and> pawnDirections crowdedMedium = pawnDirections crowded"
    by (simp add: crowdedMedium_def)
  from choice_determinism[of crowdedMedium crowded Black 0 0 ms] f
  have g: "getLegalMoves crowdedMedium Black = getLegalMoves crowded Black" by blast
  from a b g show ?thesis by blast
qed

end
